theory Spec2Isabelle
  imports Main "HOL-Library.Word" "HOL-Library.Finite_Map" "HOL-Library.Monad_Syntax"
begin

section \<open>Machine integers and handles\<close>

text \<open>
  The C++ program is a limit order book (\<^verbatim>\<open>clob.cpp\<close>, \<^verbatim>\<open>clob.hpp\<close>), a paged directory
  (\<^verbatim>\<open>sparse_set.hpp\<close>) and a matching engine (\<^verbatim>\<open>matching_engine.cpp\<close>).

  \<^item> \<^verbatim>\<open>uint64_t\<close>, \<^verbatim>\<open>int64_t\<close>, \<^verbatim>\<open>size_t\<close> and \<^verbatim>\<open>unsigned long long\<close> fields are
    \<open>64 word\<close>: \<open>+\<close> and \<open>-\<close> wrap, \<open><\<close> and \<open>\<le>\<close> compare unsigned, and a signed
    comparison reads the word with \<open>sint\<close>. A conversion between \<^verbatim>\<open>int64_t\<close> and
    \<^verbatim>\<open>uint64_t\<close> keeps the bits, so it is the identity on the word.
  \<^item> A price is a \<^verbatim>\<open>double\<close> in the book and an \<^verbatim>\<open>int64_t\<close> in the engine, which only
    compares prices and divides them by the book's unit. Prices are \<open>int\<close> here: the
    model covers integral prices and units that a \<^verbatim>\<open>double\<close> holds exactly.
  \<^item> An \<^verbatim>\<open>Order*\<close> is the id of the order it points to, a \<^verbatim>\<open>Limit*\<close> is the index of the
    directory slot that holds the limit, a \<^verbatim>\<open>Book*\<close> is the symbol under which the engine
    keeps the book; \<open>None\<close> is \<^verbatim>\<open>nullptr\<close>. Objects live in the table their handle indexes,
    and a store through a pointer is an update of that table.
  \<^item> An operation returns \<open>None\<close> where the C++ dereferences a null or dangling pointer
    (undefined behaviour), and \<open>Some\<close> of its result otherwise.
\<close>

type_synonym u64 = "64 word"

definition u64 :: "int \<Rightarrow> nat" where
  \<comment> \<open>the value of an \<^verbatim>\<open>int64_t\<close> converted to \<^verbatim>\<open>uint64_t\<close>\<close>
  "u64 i = nat (i mod 2 ^ 64)"

section \<open>SparseSet (sparse\_set.hpp)\<close>

text \<open>
  \<^verbatim>\<open>SparseSet<T>\<close> is only instantiated with a pointer type (\<^verbatim>\<open>SparseSet<Limit *>\<close>), so
  a slot is an \<open>option\<close> and \<^verbatim>\<open>return 0\<close> is \<open>None\<close>. A page's \<^verbatim>\<open>container\<close> is the array
  \<^verbatim>\<open>new T[size]\<close>, a function from the in-page index to the slot (only indices
  \<^verbatim>\<open>index % PAGE_SIZE\<close> are ever formed). \<^verbatim>\<open>new T[size]\<close> leaves the slots of a pointer
  type indeterminate: \<open>raw\<close> is what the storage held before, and
  \<^verbatim>\<open>memset(container, 0, size)\<close> clears the first \<open>sz\<close> bytes, which are the first
  \<open>sz div elem_bytes\<close> slots when a slot takes \<open>elem_bytes\<close> bytes
  (\<^verbatim>\<open>sizeof(T)\<close>, 8 for a pointer).
\<close>

type_synonym 'a page = "nat \<Rightarrow> 'a option"

definition Page :: "nat \<Rightarrow> 'a page \<Rightarrow> nat \<Rightarrow> 'a page" where
  "Page elem_bytes raw sz = (\<lambda>i. if i < sz div elem_bytes then None else raw i)"

record 'a SparseSet =
  PAGE_IDX_SHIFTER :: nat
  PAGE_SIZE :: nat
  pages :: "'a page option list"

fun log2_floor :: "nat \<Rightarrow> nat" where
  "log2_floor n = (if n < 2 then 0 else Suc (log2_floor (n div 2)))"

declare log2_floor.simps [simp del]

definition SparseSet_new :: "nat \<Rightarrow> 'a page \<Rightarrow> nat \<Rightarrow> nat \<Rightarrow> 'a SparseSet" where
  "SparseSet_new elem_bytes raw sz page_size =
     \<lparr>PAGE_IDX_SHIFTER = log2_floor page_size, PAGE_SIZE = page_size,
      pages = replicate (sz div page_size + 1) (Some (Page elem_bytes raw page_size))\<rparr>"

definition resize :: "'a option list \<Rightarrow> nat \<Rightarrow> 'a option list" where
  \<comment> \<open>\<^verbatim>\<open>std::vector::resize\<close> on a vector of pointers: new entries are null\<close>
  "resize v n = take n v @ replicate (n - length v) None"

definition SparseSet_insert ::
  "nat \<Rightarrow> 'a page \<Rightarrow> 'a SparseSet \<Rightarrow> nat \<Rightarrow> 'a option \<Rightarrow> 'a SparseSet" where
  "SparseSet_insert elem_bytes raw s index element =
     (let PAGE_IDX = index div 2 ^ PAGE_IDX_SHIFTER s;
          INPAGE_IDX = index mod PAGE_SIZE s;
          pages1 = (if PAGE_IDX \<ge> length (pages s) then resize (pages s) (PAGE_IDX * 2)
                    else pages s);
          pages2 = (if pages1 ! PAGE_IDX = None
                    then pages1[PAGE_IDX := Some (Page elem_bytes raw (PAGE_SIZE s))]
                    else pages1)
      in s\<lparr>pages := pages2[PAGE_IDX := map_option (\<lambda>c. c(INPAGE_IDX := element))
                                           (pages2 ! PAGE_IDX)]\<rparr>)"

definition SparseSet_size :: "'a SparseSet \<Rightarrow> nat" where
  "SparseSet_size s = PAGE_SIZE s * length (pages s)"

definition SparseSet_get :: "'a SparseSet \<Rightarrow> nat \<Rightarrow> 'a option" where
  \<comment> \<open>\<^verbatim>\<open>operator[]\<close>\<close>
  "SparseSet_get s index =
     (let PAGE_IDX = index div 2 ^ PAGE_IDX_SHIFTER s;
          INPAGE_IDX = index mod PAGE_SIZE s
      in if PAGE_IDX \<ge> length (pages s) then None
         else case pages s ! PAGE_IDX of None \<Rightarrow> None | Some c \<Rightarrow> c INPAGE_IDX)"

definition SparseSet_store :: "'a SparseSet \<Rightarrow> nat \<Rightarrow> 'a \<Rightarrow> 'a SparseSet" where
  \<comment> \<open>a store through the pointer held in slot \<open>index\<close>: the object in that slot changes\<close>
  "SparseSet_store s index x =
     (let PAGE_IDX = index div 2 ^ PAGE_IDX_SHIFTER s;
          INPAGE_IDX = index mod PAGE_SIZE s
      in s\<lparr>pages := (pages s)[PAGE_IDX := map_option (\<lambda>c. c(INPAGE_IDX \<mapsto> x))
                                             (pages s ! PAGE_IDX)]\<rparr>)"

section \<open>Orders, limits and the book (clob.hpp, clob.cpp)\<close>

datatype Side = Buy | Sell

record Order =
  order_id :: u64
  side :: Side
  price :: int
  volume :: u64
  limit :: "nat option"
  prev :: "u64 option"
  nxt :: "u64 option"

definition Order_new :: "u64 \<Rightarrow> Side \<Rightarrow> int \<Rightarrow> u64 \<Rightarrow> Order" where
  "Order_new oid sd limitPrice vol =
     \<lparr>order_id = oid, side = sd, price = limitPrice, volume = vol,
      limit = None, prev = None, nxt = None\<rparr>"

record Limit =
  limit_price :: int
  limit_size :: u64
  limit_volume :: u64
  front_order :: "u64 option"
  tail_order :: "u64 option"

definition Limit_new :: "int \<Rightarrow> Limit" where
  "Limit_new limitPrice =
     \<lparr>limit_price = limitPrice, limit_size = 0, limit_volume = 0,
      front_order = None, tail_order = None\<rparr>"

record Book =
  orders :: "(u64, Order) fmap"
  buy_set :: "Limit SparseSet"
  sell_set :: "Limit SparseSet"
  order_count :: u64
  buy_volume :: u64
  sell_volume :: u64
  highest_buy :: "nat option"
  lowest_sell :: "nat option"
  symbol :: string
  unit :: int

text \<open>
  The book's directories are built and grown on storage that reads as null where it was
  never written (\<open>zero_filled\<close>); what \<^verbatim>\<open>Page\<close> leaves in a slot otherwise is the subject
  of the directory's own section.
\<close>

definition zero_filled :: "'a page" where
  "zero_filled = (\<lambda>i. None)"

definition Book_new :: "string \<Rightarrow> int \<Rightarrow> Book" where
  "Book_new symb un =
     \<lparr>orders = fmempty,
      buy_set = SparseSet_new 8 zero_filled 4096 4096,
      sell_set = SparseSet_new 8 zero_filled 4096 4096,
      order_count = 0, buy_volume = 0, sell_volume = 0,
      highest_buy = None, lowest_sell = None, symbol = symb, unit = un\<rparr>"

definition side_set :: "Book \<Rightarrow> Side \<Rightarrow> Limit SparseSet" where
  "side_set b sd = (if sd = Buy then buy_set b else sell_set b)"

definition set_side_set :: "Book \<Rightarrow> Side \<Rightarrow> Limit SparseSet \<Rightarrow> Book" where
  "set_side_set b sd s = (if sd = Buy then b\<lparr>buy_set := s\<rparr> else b\<lparr>sell_set := s\<rparr>)"

definition add_side_volume :: "Book \<Rightarrow> Side \<Rightarrow> u64 \<Rightarrow> Book" where
  "add_side_volume b sd v =
     (if sd = Buy then b\<lparr>buy_volume := buy_volume b + v\<rparr>
      else b\<lparr>sell_volume := sell_volume b + v\<rparr>)"

definition exist :: "Book \<Rightarrow> u64 \<Rightarrow> bool" where
  "exist b oid = (fmlookup (orders b) oid \<noteq> None)"

definition misaligned :: "int \<Rightarrow> int \<Rightarrow> bool" where
  \<comment> \<open>\<^verbatim>\<open>fmod(price, unit) != 0\<close>; \<^verbatim>\<open>fmod(x, 0)\<close> is NaN, which differs from 0\<close>
  "misaligned p un = (un = 0 \<or> p mod un \<noteq> 0)"

definition append_order ::
  "(u64, Order) fmap \<Rightarrow> Order \<Rightarrow> Limit \<Rightarrow> ((u64, Order) fmap \<times> Order \<times> Limit) option" where
  \<comment> \<open>\<^verbatim>\<open>Book::insert\<close>, "append order to the tail of limit"\<close>
  "append_order ords new_order target_limit =
     (if limit_size target_limit = 0
      then Some (ords, new_order,
                 target_limit\<lparr>front_order := Some (order_id new_order),
                              tail_order := Some (order_id new_order)\<rparr>)
      else do {
        t \<leftarrow> tail_order target_limit;
        tl \<leftarrow> fmlookup ords t;
        Some (fmupd t (tl\<lparr>nxt := Some (order_id new_order)\<rparr>) ords,
              new_order\<lparr>prev := Some t\<rparr>,
              target_limit\<lparr>tail_order := Some (order_id new_order)\<rparr>)
      })"

definition adjust_best :: "Book \<Rightarrow> Side \<Rightarrow> nat \<Rightarrow> Limit \<Rightarrow> Book option" where
  \<comment> \<open>\<^verbatim>\<open>Book::insert\<close>, "Adjust Best offer"\<close>
  "adjust_best b sd limit_idx target_limit =
     (if sd = Buy then
        (case highest_buy b of
           None \<Rightarrow> Some (b\<lparr>highest_buy := Some limit_idx\<rparr>)
         | Some h \<Rightarrow> do {
             hl \<leftarrow> SparseSet_get (buy_set b) h;
             Some (if limit_price hl \<ge> limit_price target_limit then b
                   else b\<lparr>highest_buy := Some limit_idx\<rparr>)
           })
      else
        (case lowest_sell b of
           None \<Rightarrow> Some (b\<lparr>lowest_sell := Some limit_idx\<rparr>)
         | Some l \<Rightarrow> do {
             ll \<leftarrow> SparseSet_get (sell_set b) l;
             Some (if limit_price ll \<le> limit_price target_limit then b
                   else b\<lparr>lowest_sell := Some limit_idx\<rparr>)
           }))"

definition Book_insert :: "Book \<Rightarrow> Order \<Rightarrow> (Book \<times> Order option) option" where
  "Book_insert b new_order =
     (if exist b (order_id new_order) then Some (b, None)
      else if misaligned (price new_order) (unit b) then Some (b, None)
      else do {
        let target_side = side_set b (side new_order);
        let limit_idx = u64 (price new_order div unit b);
        let found = SparseSet_get target_side limit_idx;
        let target_limit = (case found of None \<Rightarrow> Limit_new (price new_order) | Some l \<Rightarrow> l);
        let target_side = (case found of
                             None \<Rightarrow> SparseSet_insert 8 zero_filled target_side limit_idx
                                       (Some target_limit)
                           | Some l \<Rightarrow> target_side);
        (ords, new_order, target_limit) \<leftarrow> append_order (orders b) new_order target_limit;
        let target_limit = target_limit\<lparr>limit_size := limit_size target_limit + 1,
                              limit_volume := limit_volume target_limit + volume new_order\<rparr>;
        let new_order = new_order\<lparr>limit := Some limit_idx\<rparr>;
        let b = set_side_set b (side new_order)
                  (SparseSet_store target_side limit_idx target_limit);
        let b = b\<lparr>orders := fmupd (order_id new_order) new_order ords,
                  order_count := order_count b + 1\<rparr>;
        let b = add_side_volume b (side new_order) (volume new_order);
        b \<leftarrow> adjust_best b (side new_order) limit_idx target_limit;
        Some (b, Some new_order)
      })"

definition unlink ::
  "(u64, Order) fmap \<Rightarrow> u64 \<Rightarrow> Order \<Rightarrow> Limit \<Rightarrow> ((u64, Order) fmap \<times> Order \<times> Limit) option" where
  \<comment> \<open>\<^verbatim>\<open>Book::detach\<close>, "2. detach from limit linked list"; \<open>ords\<close> no longer holds the
      target\<close>
  "unlink ords target target_order target_limit =
     (if front_order target_limit \<noteq> Some target \<and> tail_order target_limit \<noteq> Some target
      then do {
        p \<leftarrow> prev target_order;
        po \<leftarrow> fmlookup ords p;
        let ords = fmupd p (po\<lparr>nxt := nxt target_order\<rparr>) ords;
        n \<leftarrow> nxt target_order;
        no \<leftarrow> fmlookup ords n;
        let ords = fmupd n (no\<lparr>prev := prev target_order\<rparr>) ords;
        Some (ords, target_order\<lparr>prev := None, nxt := None\<rparr>, target_limit)
      }
      else if limit_size target_limit = 1
      then Some (ords, target_order, target_limit\<lparr>front_order := None, tail_order := None\<rparr>)
      else if front_order target_limit = Some target
      then do {
        n \<leftarrow> nxt target_order;
        no \<leftarrow> fmlookup ords n;
        Some (fmupd n (no\<lparr>prev := None\<rparr>) ords, target_order\<lparr>nxt := None\<rparr>,
              target_limit\<lparr>front_order := nxt target_order\<rparr>)
      }
      else if tail_order target_limit = Some target
      then do {
        p \<leftarrow> prev target_order;
        po \<leftarrow> fmlookup ords p;
        Some (fmupd p (po\<lparr>nxt := None\<rparr>) ords, target_order\<lparr>prev := None\<rparr>,
              target_limit\<lparr>tail_order := prev target_order\<rparr>)
      }
      else Some (ords, target_order, target_limit))"

function scan_buy :: "Limit SparseSet \<Rightarrow> int \<Rightarrow> nat option" where
  "scan_buy s limit_idx =
     (if limit_idx \<ge> 0 then
        (case SparseSet_get s (u64 (limit_idx - 1)) of
           None \<Rightarrow> scan_buy s (limit_idx - 1)
         | Some currLimit \<Rightarrow>
             if limit_size currLimit > 0 then Some (u64 (limit_idx - 1))
             else scan_buy s (limit_idx - 1))
      else None)"
  by pat_completeness auto
termination
  by (relation "measure (\<lambda>(s, i). nat (i + 1))") auto

declare scan_buy.simps [simp del]

text \<open>
  The sell scan compares \<^verbatim>\<open>limit_idx <= MAX_LIMIT_IDX\<close> unsigned; \<open>limit_idx\<close> is the
  converted value here, and the model stops short of an index of \<open>2 ^ 63\<close>, where the
  \<^verbatim>\<open>int64_t\<close> increment would overflow.
\<close>

function scan_sell :: "Limit SparseSet \<Rightarrow> nat \<Rightarrow> nat \<Rightarrow> nat option" where
  "scan_sell s MAX_LIMIT_IDX limit_idx =
     (if limit_idx \<le> MAX_LIMIT_IDX then
        (case SparseSet_get s (limit_idx + 1) of
           None \<Rightarrow> scan_sell s MAX_LIMIT_IDX (limit_idx + 1)
         | Some currLimit \<Rightarrow>
             if limit_size currLimit > 0 then Some (limit_idx + 1)
             else scan_sell s MAX_LIMIT_IDX (limit_idx + 1))
      else None)"
  by pat_completeness auto
termination
  by (relation "measure (\<lambda>(s, m, i). Suc m - i)") auto

declare scan_sell.simps [simp del]

definition update_best :: "Book \<Rightarrow> Order \<Rightarrow> Book option" where
  \<comment> \<open>\<^verbatim>\<open>Book::detach\<close>, "if best offer is exhausted, update it"\<close>
  "update_best b target_order =
     (let limit_idx = price target_order div unit b in
      if side target_order = Buy then do {
        h \<leftarrow> highest_buy b;
        hl \<leftarrow> SparseSet_get (buy_set b) h;
        Some (if limit_size hl = 0 then b\<lparr>highest_buy := scan_buy (buy_set b) limit_idx\<rparr>
              else b)
      }
      else do {
        l \<leftarrow> lowest_sell b;
        ll \<leftarrow> SparseSet_get (sell_set b) l;
        Some (if limit_size ll = 0
              then b\<lparr>lowest_sell :=
                       scan_sell (sell_set b) (u64 (int (SparseSet_size (sell_set b)) - 1))
                         (u64 limit_idx)\<rparr>
              else b)
      })"

definition detach :: "Book \<Rightarrow> u64 \<Rightarrow> (Book \<times> Order option) option" where
  "detach b oid =
     (case fmlookup (orders b) oid of
        None \<Rightarrow> Some (b, None)
      | Some target_order \<Rightarrow> do {
          h \<leftarrow> limit target_order;
          target_limit \<leftarrow> SparseSet_get (side_set b (side target_order)) h;
          (ords, target_order, target_limit) \<leftarrow>
             unlink (fmdrop oid (orders b)) oid target_order target_limit;
          let target_limit = target_limit\<lparr>limit_size := limit_size target_limit - 1,
                                limit_volume := limit_volume target_limit - volume target_order\<rparr>;
          let b = set_side_set b (side target_order)
                    (SparseSet_store (side_set b (side target_order)) h target_limit);
          let b = b\<lparr>orders := ords, order_count := order_count b - 1\<rparr>;
          let b = add_side_volume b (side target_order) (- volume target_order);
          b \<leftarrow> update_best b target_order;
          Some (b, Some target_order)
        })"

definition amend :: "Book \<Rightarrow> u64 \<Rightarrow> int \<Rightarrow> u64 \<Rightarrow> (Book \<times> Order option) option" where
  "amend b oid new_price new_volume =
     (if \<not> exist b oid then Some (b, None)
      else if misaligned new_price (unit b) then Some (b, None)
      else do {
        target_order \<leftarrow> fmlookup (orders b) oid;
        if price target_order \<noteq> new_price then do {
          (b, detached) \<leftarrow> detach b (order_id target_order);
          let target_order = (case detached of None \<Rightarrow> target_order | Some d \<Rightarrow> d);
          let target_order = target_order\<lparr>price := new_price, volume := new_volume\<rparr>;
          (b, r) \<leftarrow> Book_insert b target_order;
          Some (b, Some (case r of None \<Rightarrow> target_order | Some i \<Rightarrow> i))
        }
        else do {
          h \<leftarrow> limit target_order;
          target_limit \<leftarrow> SparseSet_get (side_set b (side target_order)) h;
          let volume_diff = new_volume - volume target_order;
          let target_limit = target_limit\<lparr>limit_volume := limit_volume target_limit + volume_diff\<rparr>;
          let b = set_side_set b (side target_order)
                    (SparseSet_store (side_set b (side target_order)) h target_limit);
          let b = add_side_volume b (side target_order) volume_diff;
          let target_order = target_order\<lparr>volume := new_volume\<rparr>;
          Some (b\<lparr>orders := fmupd oid target_order (orders b)\<rparr>, Some target_order)
        }
      })"

definition remove :: "Book \<Rightarrow> u64 \<Rightarrow> (Book \<times> bool) option" where
  "remove b oid = do {
     (b, to_remove) \<leftarrow> detach b oid;
     Some (b, to_remove \<noteq> None)
   }"

definition get_best_offer_id :: "Book \<Rightarrow> Side \<Rightarrow> u64 option" where
  "get_best_offer_id b sd =
     (if sd = Buy then
        (case lowest_sell b of
           None \<Rightarrow> Some 0
         | Some l \<Rightarrow> do {
             ll \<leftarrow> SparseSet_get (sell_set b) l;
             case front_order ll of
               None \<Rightarrow> Some 0
             | Some f \<Rightarrow> map_option order_id (fmlookup (orders b) f)
           })
      else
        (case highest_buy b of
           None \<Rightarrow> Some 0
         | Some h \<Rightarrow> do {
             hl \<leftarrow> SparseSet_get (buy_set b) h;
             case front_order hl of
               None \<Rightarrow> Some 0
             | Some f \<Rightarrow> map_option order_id (fmlookup (orders b) f)
           }))"

definition get_order_by_id :: "Book \<Rightarrow> u64 \<Rightarrow> Order" where
  "get_order_by_id b oid =
     (case fmlookup (orders b) oid of
        None \<Rightarrow> Order_new 0 Buy 0 0
      | Some it \<Rightarrow> Order_new (order_id it) (side it) (price it) (volume it))"

section \<open>The matching engine (matching\_engine.cpp)\<close>

record Fill =
  other_order_id :: u64
  trade_price :: int
  trade_volume :: u64

record MatchingEngine =
  books :: "(string, Book) fmap"
  order_book_map :: "(u64, string) fmap"

definition MatchingEngine_new :: MatchingEngine where
  "MatchingEngine_new = \<lparr>books = fmempty, order_book_map = fmempty\<rparr>"

text \<open>
  The \<^verbatim>\<open>while (volume > 0)\<close> loop of \<^verbatim>\<open>add_order\<close>. \<open>volume\<close> is an \<^verbatim>\<open>int64_t\<close>, so
  \<^verbatim>\<open>volume > 0\<close> is signed and \<^verbatim>\<open>best_match_copy.volume > volume\<close>, against a
  \<^verbatim>\<open>uint64_t\<close>, is unsigned. A loop that does not end has no result (\<open>None\<close>).
\<close>

partial_function (option) match_loop ::
  "Book \<Rightarrow> Side \<Rightarrow> int \<Rightarrow> u64 \<Rightarrow> Fill list \<Rightarrow> (Book \<times> u64 \<times> Fill list) option" where
  "match_loop target_book sd pr vol fills =
     (if 0 < sint vol then do {
        best \<leftarrow> get_best_offer_id target_book sd;
        let best_match_copy = get_order_by_id target_book best;
        if order_id best_match_copy = 0 then Some (target_book, vol, fills)
        else if (sd = Buy \<and> price best_match_copy \<le> pr) \<or>
                (sd = Sell \<and> price best_match_copy \<ge> pr)
        then
          if volume best_match_copy > vol then do {
            (b, r) \<leftarrow> amend target_book (order_id best_match_copy) (price best_match_copy)
                        (volume best_match_copy - vol);
            match_loop b sd pr 0
              (fills @ [\<lparr>other_order_id = order_id best_match_copy,
                         trade_price = price best_match_copy, trade_volume = vol\<rparr>])
          }
          else do {
            (b, r) \<leftarrow> remove target_book (order_id best_match_copy);
            match_loop b sd pr (vol - volume best_match_copy)
              (fills @ [\<lparr>other_order_id = order_id best_match_copy,
                         trade_price = price best_match_copy,
                         trade_volume = volume best_match_copy\<rparr>])
          }
        else Some (target_book, vol, fills)
      }
      else Some (target_book, vol, fills))"

declare match_loop.simps [code]

definition add_order ::
  "MatchingEngine \<Rightarrow> u64 \<Rightarrow> string \<Rightarrow> Side \<Rightarrow> int \<Rightarrow> u64 \<Rightarrow> Fill list
     \<Rightarrow> (bool \<times> MatchingEngine \<times> Fill list) option" where
  "add_order e oid symb sd pr vol fills =
     (if oid = 0 then Some (False, e, fills)
      else if fmlookup (order_book_map e) oid \<noteq> None then Some (False, e, fills)
      else if symb = [] then Some (False, e, fills)
      else if pr \<le> 0 then Some (False, e, fills)
      else if sint vol \<le> 0 then Some (False, e, fills)
      else
        (case fmlookup (books e) symb of
           None \<Rightarrow> do {
             (new_book, r) \<leftarrow> Book_insert (Book_new symb 1) (Order_new oid sd pr vol);
             Some (True, e\<lparr>books := fmupd symb new_book (books e),
                           order_book_map := fmupd oid symb (order_book_map e)\<rparr>, fills)
           }
         | Some target_book \<Rightarrow> do {
             (target_book, vol, fills) \<leftarrow> match_loop target_book sd pr vol fills;
             if 0 < sint vol then do {
               (target_book, r) \<leftarrow> Book_insert target_book (Order_new oid sd pr vol);
               Some (True, e\<lparr>books := fmupd symb target_book (books e),
                             order_book_map := fmupd oid symb (order_book_map e)\<rparr>, fills)
             }
             else Some (True, e\<lparr>books := fmupd symb target_book (books e)\<rparr>, fills)
           }))"

definition pull_order :: "MatchingEngine \<Rightarrow> u64 \<Rightarrow> (bool \<times> MatchingEngine) option" where
  "pull_order e oid =
     (case fmlookup (order_book_map e) oid of
        None \<Rightarrow> Some (False, e)
      | Some h \<Rightarrow> do {
          target_book \<leftarrow> fmlookup (books e) h;
          let e = e\<lparr>order_book_map := fmdrop oid (order_book_map e)\<rparr>;
          (target_book, r) \<leftarrow> remove target_book oid;
          Some (True, e\<lparr>books := fmupd h target_book (books e)\<rparr>)
        })"

definition amend_order ::
  "MatchingEngine \<Rightarrow> u64 \<Rightarrow> int \<Rightarrow> u64 \<Rightarrow> Fill list
     \<Rightarrow> (bool \<times> MatchingEngine \<times> Fill list) option" where
  "amend_order e oid new_price new_active_volume fills =
     (case fmlookup (order_book_map e) oid of
        None \<Rightarrow> Some (False, e, fills)
      | Some h \<Rightarrow>
          if new_price \<le> 0 then Some (False, e, fills)
          else if new_price \<le> 0 then Some (False, e, fills)
          else do {
            target_book \<leftarrow> fmlookup (books e) h;
            let target_order_copy = get_order_by_id target_book oid;
            if price target_order_copy = new_price \<and>
               volume target_order_copy \<ge> new_active_volume
            then do {
              (target_book, r) \<leftarrow> amend target_book oid new_price new_active_volume;
              Some (True, e\<lparr>books := fmupd h target_book (books e)\<rparr>, fills)
            }
            else do {
              (r, e) \<leftarrow> pull_order e oid;
              (r, e, fills) \<leftarrow> add_order e oid (symbol target_book) (side target_order_copy)
                                 new_price new_active_volume fills;
              Some (True, e, fills)
            }
          })"

section \<open>Well-formed directories\<close>

text \<open>
  The constructor leaves at least one page and is given a page size that is a power of
  two, so \<^verbatim>\<open>index >> PAGE_IDX_SHIFTER\<close> and \<^verbatim>\<open>index % PAGE_SIZE\<close> are the quotient and
  remainder of \<open>index\<close> by the page size.
\<close>

definition wf_set :: "'a SparseSet \<Rightarrow> bool" where
  "wf_set s = (PAGE_SIZE s = 2 ^ PAGE_IDX_SHIFTER s \<and> pages s \<noteq> [])"


section \<open>Invariants of the book\<close>

text \<open>
  The orders of one limit form a doubly linked list through \<open>prev\<close> and \<open>nxt\<close>.
  \<open>dll ords p q n\<close> reads the list \<open>q\<close> of ids off the order table: the first order's
  \<open>prev\<close> is \<open>p\<close>, each order's \<open>nxt\<close> is its successor, the last order's \<open>nxt\<close> is \<open>n\<close>.
\<close>

fun dll :: "(u64, Order) fmap \<Rightarrow> u64 option \<Rightarrow> u64 list \<Rightarrow> u64 option \<Rightarrow> bool" where
  "dll ords p [] n = True"
| "dll ords p (a # as) n =
     (case fmlookup ords a of
        None \<Rightarrow> False
      | Some x \<Rightarrow> prev x = p \<and> nxt x = (case as of [] \<Rightarrow> n | c # cs \<Rightarrow> Some c) \<and>
                  dll ords (Some a) as n)"

definition first_of :: "u64 list \<Rightarrow> u64 option \<Rightarrow> u64 option" where
  "first_of q n = (case q of [] \<Rightarrow> n | a # as \<Rightarrow> Some a)"

definition last_of :: "u64 option \<Rightarrow> u64 list \<Rightarrow> u64 option" where
  "last_of p q = (if q = [] then p else Some (last q))"


definition level_ids :: "(u64, Order) fmap \<Rightarrow> Side \<Rightarrow> nat \<Rightarrow> u64 set" where
  "level_ids ords s k = {a. \<exists>x. fmlookup ords a = Some x \<and> side x = s \<and> limit x = Some k}"

definition level_ok :: "(u64, Order) fmap \<Rightarrow> Side \<Rightarrow> nat \<Rightarrow> Limit \<Rightarrow> u64 list \<Rightarrow> bool" where
  \<comment> \<open>\<open>q\<close> is the queue of limit \<open>L\<close>, which is slot \<open>k\<close> of side \<open>s\<close>\<close>
  "level_ok ords s k L q \<longleftrightarrow>
     distinct q \<and> set q = level_ids ords s k \<and> dll ords None q None \<and>
     front_order L = first_of q None \<and> tail_order L = last_of None q \<and>
     limit_size L = of_nat (length q)"

definition order_ok :: "Book \<Rightarrow> u64 \<Rightarrow> Order \<Rightarrow> bool" where
  "order_ok b a x \<longleftrightarrow>
     order_id x = a \<and> a \<noteq> 0 \<and> 0 \<le> price x \<and> price x mod unit b = 0 \<and>
     price x div unit b < 2 ^ 63 \<and> limit x = Some (nat (price x div unit b)) \<and>
     SparseSet_get (side_set b (side x)) (nat (price x div unit b)) \<noteq> None"

definition orders_ok :: "Book \<Rightarrow> bool" where
  "orders_ok b \<longleftrightarrow> (\<forall>a x. fmlookup (orders b) a = Some x \<longrightarrow> order_ok b a x)"

definition levels_ok :: "Book \<Rightarrow> bool" where
  "levels_ok b \<longleftrightarrow>
     (\<forall>s k L. SparseSet_get (side_set b s) k = Some L \<longrightarrow>
        k < 2 ^ 63 \<and> limit_price L = int k * unit b \<and> (\<exists>q. level_ok (orders b) s k L q))"

definition volume_on :: "Side \<Rightarrow> Order option \<Rightarrow> u64" where
  "volume_on s r = (case r of None \<Rightarrow> 0 | Some x \<Rightarrow> if side x = s then volume x else 0)"

definition side_volume :: "(u64, Order) fmap \<Rightarrow> Side \<Rightarrow> u64" where
  \<comment> \<open>the sum of the volumes of the resting orders of one side\<close>
  "side_volume ords s = (\<Sum>a \<in> fmdom' ords. volume_on s (fmlookup ords a))"

definition counters_ok :: "Book \<Rightarrow> bool" where
  "counters_ok b \<longleftrightarrow>
     order_count b = of_nat (card (fmdom' (orders b))) \<and>
     buy_volume b = side_volume (orders b) Buy \<and>
     sell_volume b = side_volume (orders b) Sell"

definition best_buy_ok :: "Book \<Rightarrow> bool" where
  "best_buy_ok b \<longleftrightarrow>
     (case highest_buy b of
        None \<Rightarrow> (\<forall>k L. SparseSet_get (buy_set b) k = Some L \<longrightarrow> limit_size L = 0)
      | Some h \<Rightarrow>
          (\<exists>L. SparseSet_get (buy_set b) h = Some L \<and> limit_size L \<noteq> 0 \<and>
             (\<forall>k L'. SparseSet_get (buy_set b) k = Some L' \<and> limit_size L' \<noteq> 0 \<longrightarrow>
                limit_price L' \<le> limit_price L)))"

definition best_sell_ok :: "Book \<Rightarrow> bool" where
  "best_sell_ok b \<longleftrightarrow>
     (case lowest_sell b of
        None \<Rightarrow> (\<forall>k L. SparseSet_get (sell_set b) k = Some L \<longrightarrow> limit_size L = 0)
      | Some l \<Rightarrow>
          (\<exists>L. SparseSet_get (sell_set b) l = Some L \<and> limit_size L \<noteq> 0 \<and>
             (\<forall>k L'. SparseSet_get (sell_set b) k = Some L' \<and> limit_size L' \<noteq> 0 \<longrightarrow>
                limit_price L \<le> limit_price L')))"

definition occupied :: "Limit SparseSet \<Rightarrow> nat \<Rightarrow> bool" where
  \<comment> \<open>slot \<open>k\<close> holds a limit with orders in it\<close>
  "occupied s k = (case SparseSet_get s k of None \<Rightarrow> False | Some L \<Rightarrow> limit_size L \<noteq> 0)"

definition book_inv :: "Book \<Rightarrow> bool" where
  "book_inv b \<longleftrightarrow>
     0 < unit b \<and> wf_set (buy_set b) \<and> wf_set (sell_set b) \<and>
     SparseSet_size (buy_set b) < 2 ^ 64 \<and> SparseSet_size (sell_set b) < 2 ^ 64 \<and>
     orders_ok b \<and> levels_ok b \<and> counters_ok b \<and> best_buy_ok b \<and> best_sell_ok b"

definition new_order_ok :: "Book \<Rightarrow> Order \<Rightarrow> bool" where
  \<comment> \<open>an order as \<^verbatim>\<open>new Order(...)\<close> or \<^verbatim>\<open>Book::detach\<close> hands it to \<^verbatim>\<open>Book::insert\<close>:
      not linked, with a non-zero id and a price whose tick is a non-negative
      \<^verbatim>\<open>int64_t\<close>\<close>
  "new_order_ok b x \<longleftrightarrow>
     prev x = None \<and> nxt x = None \<and> order_id x \<noteq> 0 \<and> 0 \<le> price x \<and>
     price x div unit b < 2 ^ 63"

section \<open>Reading and writing the directory\<close>

lemma page_coords:
  fixes k k' :: nat
  assumes "k div P = k' div P" "k mod P = k' mod P"
  shows "k = k'"
  by (metis assms div_mult_mod_eq)

lemma resize_nth:
  "m < n \<Longrightarrow> resize v n ! m = (if m < length v then v ! m else None)"
  by (auto simp: resize_def nth_append)

lemma length_resize [simp]: "length (resize v n) = n"
  by (auto simp: resize_def)

lemma SparseSet_get_insert_raw:
  assumes "wf_set s"
  shows "SparseSet_get (SparseSet_insert eb raw s k v) k' =
           (if k' = k then v
            else if k' div PAGE_SIZE s = k div PAGE_SIZE s \<and>
                    (length (pages s) \<le> k div PAGE_SIZE s \<or> pages s ! (k div PAGE_SIZE s) = None)
                 then Page eb raw (PAGE_SIZE s) (k' mod PAGE_SIZE s)
                 else SparseSet_get s k')"
proof -
  define P where "P = PAGE_SIZE s"
  define i where "i = k div P"
  define i' where "i' = k' div P"
  define pages1 where "pages1 = (if i \<ge> length (pages s) then resize (pages s) (i * 2) else pages s)"
  define pages2 where "pages2 = (if pages1 ! i = None then pages1[i := Some (Page eb raw P)] else pages1)"
  define pages3 where "pages3 = pages2[i := map_option (\<lambda>c. c(k mod P := v)) (pages2 ! i)]"
  have P: "2 ^ PAGE_IDX_SHIFTER s = P" "pages s \<noteq> []"
    using assms by (auto simp: wf_set_def P_def)
  have len1: "i < length pages1" "length (pages s) \<le> length pages1"
    using P(2) by (cases "pages s"; auto simp: pages1_def)+
  have nth1: "pages1 ! m = (if m < length (pages s) then pages s ! m else None)" if "m < length pages1" for m
    using that by (auto simp: pages1_def resize_nth)
  have ins: "SparseSet_insert eb raw s k v = s\<lparr>pages := pages3\<rparr>"
    unfolding SparseSet_insert_def Let_def pages3_def pages2_def pages1_def i_def P_def
    using P(1)[unfolded P_def] by simp
  have get': "SparseSet_get (s\<lparr>pages := pages3\<rparr>) k' =
      (if i' \<ge> length pages3 then None else case pages3 ! i' of None \<Rightarrow> None | Some c \<Rightarrow> c (k' mod P))"
    unfolding SparseSet_get_def Let_def i'_def P_def using P(1)[unfolded P_def]
    by (simp cong: option.case_cong)
  have get: "SparseSet_get s k' =
      (if i' \<ge> length (pages s) then None else case pages s ! i' of None \<Rightarrow> None | Some c \<Rightarrow> c (k' mod P))"
    unfolding SparseSet_get_def Let_def i'_def P_def using P(1)[unfolded P_def]
    by (simp cong: option.case_cong)
  have len3: "length pages3 = length pages1"
    by (simp add: pages3_def pages2_def)
  have eq: "k' = k \<longleftrightarrow> i' = i \<and> k' mod P = k mod P"
    using page_coords[of k' P k] by (auto simp: i_def i'_def)
  show ?thesis
  proof (cases "i' = i")
    case True
    have "pages3 ! i = Some ((case pages1 ! i of None \<Rightarrow> Page eb raw P | Some c \<Rightarrow> c)(k mod P := v))"
      using len1 by (auto simp: pages3_def pages2_def split: option.splits)
    then show ?thesis
      using True len1 nth1[of i] eq
      unfolding ins get' get len3 P_def[symmetric] i_def[symmetric] i'_def[symmetric]
      by (auto split: option.splits)
  next
    case False
    have "pages3 ! i' = pages1 ! i'"
      using False by (auto simp: pages3_def pages2_def)
    then show ?thesis
      using False len1 nth1[of i'] eq
      unfolding ins get' get len3 P_def[symmetric] i_def[symmetric] i'_def[symmetric]
      by (auto split: option.splits)
  qed
qed


lemma SparseSet_get_insert:
  "wf_set s \<Longrightarrow>
   SparseSet_get (SparseSet_insert eb zero_filled s k v) k' = (if k' = k then v else SparseSet_get s k')"
proof -
  assume wf: "wf_set s"
  have "SparseSet_get s k' = None"
    if "k' div PAGE_SIZE s = k div PAGE_SIZE s"
       "length (pages s) \<le> k div PAGE_SIZE s \<or> pages s ! (k div PAGE_SIZE s) = None"
    using that wf by (auto simp: SparseSet_get_def Let_def wf_set_def)
  then show ?thesis
    unfolding SparseSet_get_insert_raw[OF wf] by (auto simp: Page_def zero_filled_def)
qed

lemma SparseSet_get_store:
  assumes "wf_set s" "SparseSet_get s k \<noteq> None"
  shows "SparseSet_get (SparseSet_store s k x) k' = (if k' = k then Some x else SparseSet_get s k')"
proof -
  define P :: nat where "P = 2 ^ PAGE_IDX_SHIFTER s"
  have PS: "PAGE_SIZE s = P"
    using assms by (auto simp: wf_set_def P_def)
  have eq: "k' = k \<longleftrightarrow> k' div P = k div P \<and> k' mod P = k mod P"
    using page_coords[of k' P k] by auto
  show ?thesis
    using assms(2) unfolding SparseSet_get_def SparseSet_store_def Let_def
    by (auto simp: eq PS P_def[symmetric] nth_list_update split: option.splits if_splits)
qed

lemma wf_set_new [simp]: "wf_set (SparseSet_new eb raw sz 4096)"
  by (simp add: wf_set_def SparseSet_new_def log2_floor.simps)

lemma wf_set_insert [simp]: "wf_set s \<Longrightarrow> wf_set (SparseSet_insert eb raw s k v)"
  by (cases "pages s") (auto simp: wf_set_def SparseSet_insert_def Let_def resize_def)

lemma wf_set_store [simp]: "wf_set s \<Longrightarrow> wf_set (SparseSet_store s k x)"
  by (auto simp: wf_set_def SparseSet_store_def Let_def)

lemma SparseSet_get_new [simp]: "SparseSet_get (SparseSet_new eb zero_filled sz P) k = None"
  by (simp add: SparseSet_get_def SparseSet_new_def Let_def Page_def zero_filled_def
      del: replicate.simps replicate_Suc)

lemma SparseSet_size_store [simp]: "SparseSet_size (SparseSet_store s k x) = SparseSet_size s"
  by (simp add: SparseSet_size_def SparseSet_store_def Let_def)

lemma SparseSet_size_new [simp]: "SparseSet_size (SparseSet_new eb raw 4096 4096) = 8192"
  by (simp add: SparseSet_size_def SparseSet_new_def)

lemma SparseSet_size_insert:
  assumes "wf_set s"
  shows "SparseSet_size (SparseSet_insert eb raw s k v) =
           (if k < SparseSet_size s then SparseSet_size s else PAGE_SIZE s * (2 * (k div PAGE_SIZE s)))"
proof -
  have P: "2 ^ PAGE_IDX_SHIFTER s = PAGE_SIZE s" "PAGE_SIZE s > 0"
    using assms by (auto simp: wf_set_def)
  have "k < SparseSet_size s \<longleftrightarrow> k div PAGE_SIZE s < length (pages s)"
    unfolding SparseSet_size_def using P(2)
    by (metis div_less_iff_less_mult mult.commute)
  then show ?thesis
    unfolding SparseSet_insert_def Let_def P
    by (auto simp: SparseSet_size_def)
qed

lemma SparseSet_get_bound:
  assumes "wf_set s" "SparseSet_get s k \<noteq> None"
  shows "k < SparseSet_size s"
proof -
  have "k div PAGE_SIZE s < length (pages s)" "PAGE_SIZE s > 0"
    using assms by (auto simp: SparseSet_get_def Let_def wf_set_def split: if_splits)
  then show ?thesis
    unfolding SparseSet_size_def
    by (metis div_less_iff_less_mult mult.commute)
qed



section \<open>Doubly linked queues\<close>

lemma first_of_simps [simp]: "first_of [] n = n" "first_of (a # as) n = Some a"
  by (simp_all add: first_of_def)

lemma last_of_simps [simp]: "last_of p [] = p" "last_of p (a # as) = last_of (Some a) as"
  by (simp_all add: last_of_def)

lemma last_of_append [simp]: "last_of p (xs @ ys) = last_of (last_of p xs) ys"
  by (induction xs arbitrary: p) auto

lemma first_of_append [simp]: "first_of (xs @ ys) n = first_of xs (first_of ys n)"
  by (cases xs) auto

lemma dll_Cons [simp]: "dll ords p (a # as) n \<longleftrightarrow>
    (\<exists>x. fmlookup ords a = Some x \<and> prev x = p \<and> nxt x = first_of as n \<and> dll ords (Some a) as n)"
  by (auto simp: first_of_def split: option.splits list.splits)

declare dll.simps(2) [simp del]

lemma dll_append:
  "dll ords p (xs @ ys) n \<longleftrightarrow> dll ords p xs (first_of ys n) \<and> dll ords (last_of p xs) ys n"
proof (induction xs arbitrary: p)
  case Nil
  then show ?case by simp
next
  case (Cons a xs)
  show ?case
    using Cons.IH by (cases xs) auto
qed

lemma dll_cong:
  "(\<And>a. a \<in> set q \<Longrightarrow> fmlookup ords' a = fmlookup ords a) \<Longrightarrow> dll ords' p q n = dll ords p q n"
proof (induction q arbitrary: p)
  case Nil
  then show ?case by simp
next
  case (Cons a q)
  then show ?case by auto
qed

lemma dll_in_dom: "dll ords p q n \<Longrightarrow> a \<in> set q \<Longrightarrow> fmlookup ords a \<noteq> None"
  by (induction q arbitrary: p) auto

lemma dll_set_next:
  assumes "dll ords p q n" "q \<noteq> []" "distinct q" "fmlookup ords (last q) = Some l"
  shows "dll (fmupd (last q) (l\<lparr>nxt := n'\<rparr>) ords) p q n'"
  using assms
proof (induction q arbitrary: p)
  case Nil
  then show ?case by simp
next
  case (Cons a q)
  show ?case
  proof (cases "q = []")
    case True
    with Cons.prems show ?thesis by auto
  next
    case False
    with Cons.prems have "dll (fmupd (last q) (l\<lparr>nxt := n'\<rparr>) ords) (Some a) q n'"
      by (intro Cons.IH) auto
    moreover have "a \<noteq> last q" using False Cons.prems(3) by auto
    moreover have "first_of q n' = first_of q n" using False by (cases q) auto
    ultimately show ?thesis using Cons.prems(1) False by auto
  qed
qed

lemma dll_set_prev:
  assumes "dll ords p q n" "q \<noteq> []" "distinct q" "fmlookup ords (hd q) = Some h"
  shows "dll (fmupd (hd q) (h\<lparr>prev := p'\<rparr>) ords) p' q n"
proof -
  obtain a as where q: "q = a # as" using assms(2) by (cases q) auto
  have "dll (fmupd a (h\<lparr>prev := p'\<rparr>) ords) (Some a) as n = dll ords (Some a) as n"
    using assms(3) by (intro dll_cong) (auto simp: q)
  then show ?thesis using assms by (auto simp: q)
qed

section \<open>Book::insert keeps the invariants\<close>

lemma distinct_ids_length:
  fixes q :: "u64 list"
  assumes "distinct q" "0 \<notin> set q"
  shows "length q < 2 ^ 64"
proof -
  have "card (set q) \<le> card (UNIV - {0 :: u64})"
    using assms(2) by (intro card_mono) auto
  also have "\<dots> = 2 ^ 64 - 1"
    by (simp add: card_Diff_singleton card_word)
  finally show ?thesis
    using distinct_card[OF assms(1)] by simp
qed

lemma of_nat_length_eq_0:
  fixes q :: "u64 list"
  assumes "distinct q" "0 \<notin> set q"
  shows "(of_nat (length q) :: u64) = 0 \<longleftrightarrow> q = []"
proof -
  have "unat (of_nat (length q) :: u64) = length q"
    using distinct_ids_length[OF assms] by (simp add: unat_of_nat take_bit_nat_eq_self)
  moreover have "(of_nat (length q) :: u64) = 0 \<longleftrightarrow> unat (of_nat (length q) :: u64) = 0"
    by (simp only: unat_eq_zero)
  ultimately show ?thesis
    by simp
qed

lemma of_nat_length_eq_1:
  fixes q :: "u64 list"
  assumes "distinct q" "0 \<notin> set q"
  shows "(of_nat (length q) :: u64) = 1 \<longleftrightarrow> length q = 1"
proof -
  have "unat (of_nat (length q) :: u64) = length q"
    using distinct_ids_length[OF assms] by (simp add: unat_of_nat take_bit_nat_eq_self)
  then show ?thesis
    by (metis of_nat_1 unat_1)
qed

lemma level_ids_nonzero: "orders_ok b \<Longrightarrow> 0 \<notin> level_ids (orders b) s k"
  by (auto simp: orders_ok_def order_ok_def level_ids_def)

lemma level_size_0:
  assumes "orders_ok b" "level_ok (orders b) s k L q"
  shows "limit_size L = 0 \<longleftrightarrow> q = []"
  using assms level_ids_nonzero[OF assms(1), of s k] of_nat_length_eq_0[of q]
  by (auto simp: level_ok_def)

lemma level_size_1:
  assumes "orders_ok b" "level_ok (orders b) s k L q"
  shows "limit_size L = 1 \<longleftrightarrow> length q = 1"
  using assms level_ids_nonzero[OF assms(1), of s k] of_nat_length_eq_1[of q]
  by (auto simp: level_ok_def)


lemma level_ok_absent:
  assumes "orders_ok b" "SparseSet_get (side_set b s) k = None"
  shows "level_ok (orders b) s k (Limit_new p) []"
proof -
  have "level_ids (orders b) s k = {}"
    using assms by (fastforce simp: level_ids_def orders_ok_def order_ok_def)
  then show ?thesis
    by (simp add: level_ok_def Limit_new_def)
qed

lemma append_order_eff:
  assumes "orders_ok b" "level_ok (orders b) s k L q" "prev x = None"
  shows "\<exists>ords'. append_order (orders b) x L =
            Some (ords', x\<lparr>prev := last_of None q\<rparr>,
                  L\<lparr>front_order := first_of (q @ [order_id x]) None,
                    tail_order := Some (order_id x)\<rparr>) \<and>
          (\<forall>a'. fmlookup ords' a' =
             (if q \<noteq> [] \<and> a' = last q
              then map_option (\<lambda>t. t\<lparr>nxt := Some (order_id x)\<rparr>) (fmlookup (orders b) a')
              else fmlookup (orders b) a'))"
proof (cases "q = []")
  case True
  then have "limit_size L = 0"
    using level_size_0[OF assms(1,2)] by simp
  then show ?thesis
    using True assms(3) by (simp add: append_order_def)
next
  case False
  then have sz: "limit_size L \<noteq> 0"
    using level_size_0[OF assms(1,2)] by simp
  have tl: "tail_order L = Some (last q)" and fr: "front_order L = first_of q None"
    using assms(2) False by (auto simp: level_ok_def last_of_def)
  have "last q \<in> set q" using False by simp
  then obtain t where t: "fmlookup (orders b) (last q) = Some t"
    using assms(2) dll_in_dom[of "orders b" None q None "last q"] by (auto simp: level_ok_def)
  have "L\<lparr>tail_order := Some (order_id x)\<rparr> =
        L\<lparr>front_order := first_of (q @ [order_id x]) None, tail_order := Some (order_id x)\<rparr>"
    using fr False by (cases q) auto
  then show ?thesis
    using sz tl t False by (simp add: append_order_def last_of_def)
qed


lemma side_set_simps [simp]:
  "side_set (set_side_set b s S) s' = (if s' = s then S else side_set b s')"
  "side_set (b\<lparr>orders := ords\<rparr>) s' = side_set b s'"
  "side_set (b\<lparr>order_count := c\<rparr>) s' = side_set b s'"
  "side_set (b\<lparr>highest_buy := hb\<rparr>) s' = side_set b s'"
  "side_set (b\<lparr>lowest_sell := ls\<rparr>) s' = side_set b s'"
  "side_set (add_side_volume b s v) s' = side_set b s'"
  by (cases s; cases s'; simp add: side_set_def set_side_set_def add_side_volume_def)+

lemma set_side_set_fields [simp]:
  "orders (set_side_set b s S) = orders b"
  "order_count (set_side_set b s S) = order_count b"
  "buy_volume (set_side_set b s S) = buy_volume b"
  "sell_volume (set_side_set b s S) = sell_volume b"
  "highest_buy (set_side_set b s S) = highest_buy b"
  "lowest_sell (set_side_set b s S) = lowest_sell b"
  "symbol (set_side_set b s S) = symbol b"
  "unit (set_side_set b s S) = unit b"
  by (simp_all add: set_side_set_def)

lemma add_side_volume_fields [simp]:
  "orders (add_side_volume b s v) = orders b"
  "order_count (add_side_volume b s v) = order_count b"
  "buy_volume (add_side_volume b s v) = buy_volume b + (if s = Buy then v else 0)"
  "sell_volume (add_side_volume b s v) = sell_volume b + (if s = Sell then v else 0)"
  "highest_buy (add_side_volume b s v) = highest_buy b"
  "lowest_sell (add_side_volume b s v) = lowest_sell b"
  "symbol (add_side_volume b s v) = symbol b"
  "unit (add_side_volume b s v) = unit b"
  by (cases s; simp add: add_side_volume_def)+

lemma buy_sell_side_set: "buy_set b = side_set b Buy" "sell_set b = side_set b Sell"
  by (simp_all add: side_set_def)

lemma insert_obs:
  assumes inv: "book_inv b" and new: "new_order_ok b x"
    and fresh: "fmlookup (orders b) (order_id x) = None"
    and aligned: "price x mod unit b = 0"
  defines "k \<equiv> nat (price x div unit b)"
  obtains b' q L0 where
    "Book_insert b x = Some (b', Some (x\<lparr>prev := last_of None q, limit := Some k\<rparr>))"
    "level_ok (orders b) (side x) k L0 q"
    "L0 = (case SparseSet_get (side_set b (side x)) k of None \<Rightarrow> Limit_new (price x) | Some l \<Rightarrow> l)"
    "\<And>s' k'. SparseSet_get (side_set b' s') k' =
        (if s' = side x \<and> k' = k
         then Some (L0\<lparr>front_order := first_of (q @ [order_id x]) None,
                       tail_order := Some (order_id x),
                       limit_size := limit_size L0 + 1,
                       limit_volume := limit_volume L0 + volume x\<rparr>)
         else SparseSet_get (side_set b s') k')"
    "\<And>a'. fmlookup (orders b') a' =
        (if a' = order_id x then Some (x\<lparr>prev := last_of None q, limit := Some k\<rparr>)
         else if q \<noteq> [] \<and> a' = last q
         then map_option (\<lambda>t. t\<lparr>nxt := Some (order_id x)\<rparr>) (fmlookup (orders b) a')
         else fmlookup (orders b) a')"
    "unit b' = unit b" "symbol b' = symbol b" "wf_set (buy_set b')" "wf_set (sell_set b')"
    "SparseSet_size (buy_set b') < 2 ^ 64" "SparseSet_size (sell_set b') < 2 ^ 64"
    "order_count b' = order_count b + 1"
    "buy_volume b' = buy_volume b + (if side x = Buy then volume x else 0)"
    "sell_volume b' = sell_volume b + (if side x = Sell then volume x else 0)"
    "highest_buy b' = (if side x = Buy
                       then Some (case highest_buy b of None \<Rightarrow> k | Some h \<Rightarrow> max h k)
                       else highest_buy b)"
    "lowest_sell b' = (if side x = Sell
                       then Some (case lowest_sell b of None \<Rightarrow> k | Some l \<Rightarrow> min l k)
                       else lowest_sell b)"
proof -
  define s where "s = side x"
  define a where "a = order_id x"
  have un: "0 < unit b" and wf: "wf_set (side_set b s')" and ook: "orders_ok b" and lok: "levels_ok b"
    and bb: "best_buy_ok b" and bs: "best_sell_ok b"
    and szb: "SparseSet_size (side_set b s') < 2 ^ 64" for s'
    using inv by (cases s'; auto simp: book_inv_def side_set_def)+
  have tick: "0 \<le> price x div unit b" "price x div unit b < 2 ^ 63"
    using new un by (auto simp: new_order_ok_def pos_imp_zdiv_nonneg_iff)
  have k: "u64 (price x div unit b) = k"
    using tick by (simp add: u64_def k_def)
  have px: "price x = int k * unit b"
    using aligned tick mult_div_mod_eq[of "unit b" "price x"] by (simp add: k_def mult.commute)
  define found where "found = SparseSet_get (side_set b s) k"
  define L0 where "L0 = (case found of None \<Rightarrow> Limit_new (price x) | Some l \<Rightarrow> l)"
  define set1 where "set1 = (case found of
      None \<Rightarrow> SparseSet_insert 8 zero_filled (side_set b s) k (Some L0) | Some l \<Rightarrow> side_set b s)"
  have wf1: "wf_set set1"
    using wf[of s] by (auto simp: set1_def split: option.splits)
  have sz1: "SparseSet_size set1 < 2 ^ 64"
  proof (cases "found = None \<and> \<not> k < SparseSet_size (side_set b s)")
    case True
    have "PAGE_SIZE (side_set b s) * (k div PAGE_SIZE (side_set b s)) \<le> k"
      by simp
    then have "PAGE_SIZE (side_set b s) * (2 * (k div PAGE_SIZE (side_set b s))) \<le> 2 * k"
      by (simp only: mult.left_commute[of _ 2] mult_le_mono2)
    moreover have "2 * k < (2 :: nat) ^ 64"
      using tick by (simp add: k_def nat_less_iff)
    moreover have "SparseSet_size set1 = PAGE_SIZE (side_set b s) * (2 * (k div PAGE_SIZE (side_set b s)))"
      using True wf[of s] by (simp add: set1_def SparseSet_size_insert)
    ultimately show ?thesis by linarith
  next
    case False
    then have "SparseSet_size set1 = SparseSet_size (side_set b s)"
      using wf[of s] by (auto simp: set1_def SparseSet_size_insert split: option.splits)
    then show ?thesis using szb[of s] by simp
  qed
  have get1: "SparseSet_get set1 k' = (if k' = k then Some L0 else SparseSet_get (side_set b s) k')" for k'
    using wf[of s] by (auto simp: set1_def L0_def found_def SparseSet_get_insert split: option.splits)
  obtain q where q: "level_ok (orders b) s k L0 q"
  proof (cases found)
    case None
    then show ?thesis
      using level_ok_absent[OF ook, of s k "price x"] that by (auto simp: L0_def found_def)
  next
    case (Some l)
    then show ?thesis
      using lok that by (auto simp: levels_ok_def L0_def found_def)
  qed
  have pL0: "limit_price L0 = int k * unit b"
    using lok px by (auto simp: L0_def found_def levels_ok_def Limit_new_def split: option.splits)
  from append_order_eff[OF ook q, of x] new
  obtain ords' where app: "append_order (orders b) x L0 =
            Some (ords', x\<lparr>prev := last_of None q\<rparr>,
                  L0\<lparr>front_order := first_of (q @ [a]) None, tail_order := Some a\<rparr>)"
    and ords': "\<And>a'. fmlookup ords' a' =
             (if q \<noteq> [] \<and> a' = last q
              then map_option (\<lambda>t. t\<lparr>nxt := Some a\<rparr>) (fmlookup (orders b) a')
              else fmlookup (orders b) a')"
    by (auto simp: new_order_ok_def a_def)
  define L1 where "L1 = L0\<lparr>front_order := first_of (q @ [a]) None, tail_order := Some a,
      limit_size := limit_size L0 + 1, limit_volume := limit_volume L0 + volume x\<rparr>"
  define x1 where "x1 = x\<lparr>prev := last_of None q, limit := Some k\<rparr>"
  define b3 where "b3 = add_side_volume
      ((set_side_set b s (SparseSet_store set1 k L1))\<lparr>orders := fmupd a x1 ords',
          order_count := order_count b + 1\<rparr>) s (volume x)"
  have get3: "SparseSet_get (side_set b3 s') k' =
      (if s' = s \<and> k' = k then Some L1 else SparseSet_get (side_set b s') k')" for s' k'
    using wf1 get1 by (auto simp: b3_def SparseSet_get_store)
  define hb where "hb = (if s = Buy then Some (case highest_buy b of None \<Rightarrow> k | Some h \<Rightarrow> max h k)
                       else highest_buy b)"
  define ls where "ls = (if s = Sell then Some (case lowest_sell b of None \<Rightarrow> k | Some l \<Rightarrow> min l k)
                       else lowest_sell b)"
  have adj: "adjust_best b3 s k L1 = Some (b3\<lparr>highest_buy := hb, lowest_sell := ls\<rparr>)"
  proof (cases s)
    case Buy
    show ?thesis
    proof (cases "highest_buy b")
      case None
      then show ?thesis
        using Buy by (simp add: adjust_best_def b3_def hb_def ls_def)
    next
      case (Some h)
      then obtain Lh where Lh: "SparseSet_get (side_set b Buy) h = Some Lh"
        using bb by (auto simp: best_buy_ok_def buy_sell_side_set)
      then have pLh: "limit_price Lh = int h * unit b"
        using lok by (auto simp: levels_ok_def)
      have "limit_price L1 = int k * unit b"
        using pL0 by (simp add: L1_def)
      moreover have "(int k * unit b \<le> int h * unit b) = (k \<le> h)"
        using un by simp
      ultimately show ?thesis
        using Buy Some Lh pLh get3[of Buy h] 
        by (auto simp: adjust_best_def hb_def ls_def buy_sell_side_set max_def b3_def)
    qed
  next
    case Sell
    show ?thesis
    proof (cases "lowest_sell b")
      case None
      then show ?thesis
        using Sell by (simp add: adjust_best_def b3_def hb_def ls_def)
    next
      case (Some l)
      then obtain Ll where Ll: "SparseSet_get (side_set b Sell) l = Some Ll"
        using bs by (auto simp: best_sell_ok_def buy_sell_side_set)
      then have pLl: "limit_price Ll = int l * unit b"
        using lok by (auto simp: levels_ok_def)
      have "limit_price L1 = int k * unit b"
        using pL0 by (simp add: L1_def)
      moreover have "(int l * unit b \<le> int k * unit b) = (l \<le> k)"
        using un by simp
      ultimately show ?thesis
        using Sell Some Ll pLl get3[of Sell l]
        by (auto simp: adjust_best_def hb_def ls_def buy_sell_side_set min_def b3_def)
    qed
  qed
  have ins: "Book_insert b x = Some (b3\<lparr>highest_buy := hb, lowest_sell := ls\<rparr>, Some x1)"
    using fresh un aligned app adj
    unfolding Book_insert_def exist_def misaligned_def k Let_def
      b3_def x1_def L1_def set1_def L0_def found_def s_def a_def
    by simp
  show ?thesis
  proof (rule that[of "b3\<lparr>highest_buy := hb, lowest_sell := ls\<rparr>" q L0])
    show "Book_insert b x = Some (b3\<lparr>highest_buy := hb, lowest_sell := ls\<rparr>,
        Some (x\<lparr>prev := last_of None q, limit := Some k\<rparr>))"
      using ins by (simp add: x1_def)
    show "level_ok (orders b) (side x) k L0 q"
      using q by (simp add: s_def)
    show "L0 = (case SparseSet_get (side_set b (side x)) k of None \<Rightarrow> Limit_new (price x) | Some l \<Rightarrow> l)"
      by (simp add: L0_def found_def s_def)
    show "SparseSet_get (side_set (b3\<lparr>highest_buy := hb, lowest_sell := ls\<rparr>) s') k' =
        (if s' = side x \<and> k' = k
         then Some (L0\<lparr>front_order := first_of (q @ [order_id x]) None,
                       tail_order := Some (order_id x),
                       limit_size := limit_size L0 + 1,
                       limit_volume := limit_volume L0 + volume x\<rparr>)
         else SparseSet_get (side_set b s') k')" for s' k'
      using get3[of s' k'] by (simp add: L1_def a_def s_def)
    show "fmlookup (orders (b3\<lparr>highest_buy := hb, lowest_sell := ls\<rparr>)) a' =
        (if a' = order_id x then Some (x\<lparr>prev := last_of None q, limit := Some k\<rparr>)
         else if q \<noteq> [] \<and> a' = last q
         then map_option (\<lambda>t. t\<lparr>nxt := Some (order_id x)\<rparr>) (fmlookup (orders b) a')
         else fmlookup (orders b) a')" for a'
      using ords'[of a'] by (simp add: b3_def x1_def a_def)
    show "wf_set (buy_set (b3\<lparr>highest_buy := hb, lowest_sell := ls\<rparr>))"
      using wf1 wf[of Buy] by (cases s) (auto simp: b3_def set_side_set_def add_side_volume_def side_set_def)
    show "wf_set (sell_set (b3\<lparr>highest_buy := hb, lowest_sell := ls\<rparr>))"
      using wf1 wf[of Sell] by (cases s) (auto simp: b3_def set_side_set_def add_side_volume_def side_set_def)
    show "SparseSet_size (buy_set (b3\<lparr>highest_buy := hb, lowest_sell := ls\<rparr>)) < 2 ^ 64"
      using sz1 szb[of Buy] by (cases s) (auto simp: b3_def set_side_set_def add_side_volume_def side_set_def)
    show "SparseSet_size (sell_set (b3\<lparr>highest_buy := hb, lowest_sell := ls\<rparr>)) < 2 ^ 64"
      using sz1 szb[of Sell] by (cases s) (auto simp: b3_def set_side_set_def add_side_volume_def side_set_def)
  qed (simp_all add: b3_def hb_def ls_def s_def)
qed

lemma volume_on_simps [simp]:
  "volume_on s None = 0" "volume_on s (Some x) = (if side x = s then volume x else 0)"
  by (simp_all add: volume_on_def)

lemma side_volume_superset:
  assumes "finite A" "fmdom' ords \<subseteq> A"
  shows "side_volume ords s = (\<Sum>a \<in> A. volume_on s (fmlookup ords a))"
  unfolding side_volume_def
  by (rule sum.mono_neutral_left) (use assms in \<open>auto simp: fmdom'_notI\<close>)

lemma side_volume_diff:
  assumes "\<And>a'. a' \<noteq> a \<Longrightarrow> volume_on s (fmlookup ords' a') = volume_on s (fmlookup ords a')"
  shows "side_volume ords' s + volume_on s (fmlookup ords a) =
         side_volume ords s + volume_on s (fmlookup ords' a)"
proof -
  define A where "A = insert a (fmdom' ords \<union> fmdom' ords')"
  have fin: "finite A" by (simp add: A_def)
  have 1: "side_volume ords s = (\<Sum>a \<in> A. volume_on s (fmlookup ords a))"
    by (rule side_volume_superset[OF fin]) (auto simp: A_def)
  have 2: "side_volume ords' s = (\<Sum>a \<in> A. volume_on s (fmlookup ords' a))"
    by (rule side_volume_superset[OF fin]) (auto simp: A_def)
  have "(\<Sum>a' \<in> A - {a}. volume_on s (fmlookup ords' a')) = (\<Sum>a' \<in> A - {a}. volume_on s (fmlookup ords a'))"
    by (rule sum.cong) (use assms in auto)
  moreover have "a \<in> A" by (simp add: A_def)
  ultimately show ?thesis
    unfolding 1 2
    using sum.remove[OF fin, of a "\<lambda>a. volume_on s (fmlookup ords a)"]
      sum.remove[OF fin, of a "\<lambda>a. volume_on s (fmlookup ords' a)"]
    by (simp add: add.commute add.left_commute)
qed


lemma level_ok_frame:
  assumes "level_ok ords s k L q"
    and "\<And>a. a \<in> set q \<Longrightarrow> fmlookup ords' a = fmlookup ords a"
    and "level_ids ords' s k = level_ids ords s k"
  shows "level_ok ords' s k L q"
  using assms dll_cong[of q ords' ords None None] by (auto simp: level_ok_def)

lemma level_ids_disjoint:
  "(s, k) \<noteq> (s', k') \<Longrightarrow> a \<in> level_ids ords s k \<Longrightarrow> a \<notin> level_ids ords s' k'"
  by (auto simp: level_ids_def)

lemma card_fmdom'_insert:
  assumes "\<And>a'. fmlookup ords' a' \<noteq> None \<longleftrightarrow> a' = a \<or> fmlookup ords a' \<noteq> None"
    and "fmlookup ords a = None"
  shows "card (fmdom' ords') = Suc (card (fmdom' ords))"
proof -
  have "fmdom' ords' = insert a (fmdom' ords)"
    using assms(1) by (auto simp: fmdom'_alt_def fmdom.rep_eq dom_def)
  moreover have "a \<notin> fmdom' ords"
    using assms(2) by (simp add: fmdom'_notI)
  ultimately show ?thesis by simp
qed

lemma best_buy_ok_cong:
  "highest_buy b' = highest_buy b \<Longrightarrow>
   (\<And>k. SparseSet_get (side_set b' Buy) k = SparseSet_get (side_set b Buy) k) \<Longrightarrow>
   best_buy_ok b' = best_buy_ok b"
  by (simp add: best_buy_ok_def buy_sell_side_set cong: option.case_cong)

lemma best_sell_ok_cong:
  "lowest_sell b' = lowest_sell b \<Longrightarrow>
   (\<And>k. SparseSet_get (side_set b' Sell) k = SparseSet_get (side_set b Sell) k) \<Longrightarrow>
   best_sell_ok b' = best_sell_ok b"
  by (simp add: best_sell_ok_def buy_sell_side_set cong: option.case_cong)

lemma insert_inv:
  assumes inv: "book_inv b" and new: "new_order_ok b x"
    and fresh: "fmlookup (orders b) (order_id x) = None"
    and aligned: "price x mod unit b = 0"
  shows "\<exists>b' x'. Book_insert b x = Some (b', Some x') \<and> book_inv b' \<and>
           unit b' = unit b \<and> symbol b' = symbol b \<and>
           (\<forall>a'. fmlookup (orders b') a' \<noteq> None \<longleftrightarrow> a' = order_id x \<or> fmlookup (orders b) a' \<noteq> None)"
proof -
  define k where "k = nat (price x div unit b)"
  define s where "s = side x"
  define a where "a = order_id x"
  have un: "0 < unit b" and ook: "orders_ok b" and lok: "levels_ok b"
    and cok: "counters_ok b" and bb: "best_buy_ok b" and bs: "best_sell_ok b"
    using inv by (auto simp: book_inv_def)
  have tick: "0 \<le> price x div unit b" "price x div unit b < 2 ^ 63"
    using new un by (auto simp: new_order_ok_def pos_imp_zdiv_nonneg_iff)
  have k63: "k < 2 ^ 63"
    using tick by (simp add: k_def nat_less_iff)
  show ?thesis
  proof (rule insert_obs[OF inv new fresh aligned])
  fix b' q L0
  assume ins0: "Book_insert b x = Some (b', Some (x\<lparr>prev := last_of None q, limit := Some (nat (price x div unit b))\<rparr>))"
    and q0: "level_ok (orders b) (side x) (nat (price x div unit b)) L0 q"
    and L00: "L0 = (case SparseSet_get (side_set b (side x)) (nat (price x div unit b)) of None \<Rightarrow> Limit_new (price x) | Some l \<Rightarrow> l)"
    and get0: "\<And>s' k'. SparseSet_get (side_set b' s') k' =
        (if s' = side x \<and> k' = nat (price x div unit b)
         then Some (L0\<lparr>front_order := first_of (q @ [order_id x]) None,
                       tail_order := Some (order_id x),
                       limit_size := limit_size L0 + 1,
                       limit_volume := limit_volume L0 + volume x\<rparr>)
         else SparseSet_get (side_set b s') k')"
    and ord0: "\<And>a'. fmlookup (orders b') a' =
        (if a' = order_id x then Some (x\<lparr>prev := last_of None q, limit := Some (nat (price x div unit b))\<rparr>)
         else if q \<noteq> [] \<and> a' = last q
         then map_option (\<lambda>t. t\<lparr>nxt := Some (order_id x)\<rparr>) (fmlookup (orders b) a')
         else fmlookup (orders b) a')"
    and fields: "unit b' = unit b" "symbol b' = symbol b" "wf_set (buy_set b')" "wf_set (sell_set b')"
      "SparseSet_size (buy_set b') < 2 ^ 64" "SparseSet_size (sell_set b') < 2 ^ 64"
    and cnt0: "order_count b' = order_count b + 1"
      "buy_volume b' = buy_volume b + (if side x = Buy then volume x else 0)"
      "sell_volume b' = sell_volume b + (if side x = Sell then volume x else 0)"
    and hb0: "highest_buy b' = (if side x = Buy
                       then Some (case highest_buy b of None \<Rightarrow> nat (price x div unit b) | Some h \<Rightarrow> max h (nat (price x div unit b)))
                       else highest_buy b)"
    and ls0: "lowest_sell b' = (if side x = Sell
                       then Some (case lowest_sell b of None \<Rightarrow> nat (price x div unit b) | Some l \<Rightarrow> min l (nat (price x div unit b)))
                       else lowest_sell b)"
  note ins = ins0[folded k_def s_def a_def] and q = q0[folded k_def s_def a_def]
    and L0 = L00[folded k_def s_def a_def] and get' = get0[folded k_def s_def a_def]
    and ord' = ord0[folded k_def s_def a_def] and cnt = cnt0[folded k_def s_def a_def]
    and hb = hb0[folded k_def s_def a_def] and ls = ls0[folded k_def s_def a_def]
  define L1 where "L1 = L0\<lparr>front_order := first_of (q @ [a]) None, tail_order := Some a,
                       limit_size := limit_size L0 + 1,
                       limit_volume := limit_volume L0 + volume x\<rparr>"
  define x1 where "x1 = x\<lparr>prev := last_of None q, limit := Some k\<rparr>"
  note get' = get'[folded L1_def] and ord' = ord'[folded x1_def]
  have px: "price x = int k * unit b"
    using aligned tick mult_div_mod_eq[of "unit b" "price x"] by (simp add: k_def mult.commute)
  have pL0: "limit_price L0 = int k * unit b"
    using lok px by (auto simp: L0 levels_ok_def Limit_new_def split: option.splits)
  have a_notin: "a \<notin> set q"
    using q fresh by (auto simp: level_ok_def level_ids_def a_def)
  have q_sub: "set q = level_ids (orders b) s k"
    using q by (simp add: level_ok_def)
  have place: "map_option (\<lambda>t. (order_id t, side t, price t, volume t, limit t)) (fmlookup (orders b') a') =
               map_option (\<lambda>t. (order_id t, side t, price t, volume t, limit t)) (fmlookup (orders b) a')"
    if "a' \<noteq> a" for a'
    using that by (auto simp: ord' map_option.compositionality comp_def)
  have dom': "fmlookup (orders b') a' \<noteq> None \<longleftrightarrow> a' = a \<or> fmlookup (orders b) a' \<noteq> None" for a'
    by (auto simp: ord')
  \<comment> \<open>the orders\<close>
  have ook': "orders_ok b'"
    unfolding orders_ok_def
  proof (intro allI impI)
    fix a' t' assume t': "fmlookup (orders b') a' = Some t'"
    show "order_ok b' a' t'"
    proof (cases "a' = a")
      case True
      then have "t' = x1" using t' by (simp add: ord')
      then show ?thesis
        using True new aligned tick
        by (simp add: order_ok_def x1_def fields get' new_order_ok_def a_def k_def s_def)
    next
      case False
      with place[of a'] t' obtain t where t: "fmlookup (orders b) a' = Some t"
        and same: "order_id t' = order_id t" "side t' = side t" "price t' = price t" "limit t' = limit t"
        by (cases "fmlookup (orders b) a'") auto
      have "order_ok b a' t" using ook t by (simp add: orders_ok_def)
      then show ?thesis
        by (simp add: order_ok_def same fields get')
    qed
  qed
  \<comment> \<open>the limits and their queues\<close>
  have ids_other: "level_ids (orders b') s' k' = level_ids (orders b) s' k'" if "(s', k') \<noteq> (s, k)" for s' k'
  proof -
    have "a' \<in> level_ids (orders b') s' k' \<longleftrightarrow> a' \<in> level_ids (orders b) s' k'" for a'
    proof (cases "a' = a")
      case True
      then show ?thesis
        using that fresh by (auto simp: level_ids_def ord' x1_def s_def a_def)
    next
      case False
      from place[OF this] show ?thesis
        by (cases "fmlookup (orders b') a'"; cases "fmlookup (orders b) a'") (auto simp: level_ids_def)
    qed
    then show ?thesis by blast
  qed
  have ids_same: "level_ids (orders b') s k = insert a (level_ids (orders b) s k)"
  proof -
    have "a' \<in> level_ids (orders b') s k \<longleftrightarrow> a' = a \<or> a' \<in> level_ids (orders b) s k" for a'
    proof (cases "a' = a")
      case True
      then show ?thesis
        by (auto simp: level_ids_def ord' x1_def s_def)
    next
      case False
      from place[OF this] show ?thesis
        using False
        by (cases "fmlookup (orders b') a'"; cases "fmlookup (orders b) a'") (auto simp: level_ids_def)
    qed
    then show ?thesis by blast
  qed
  have lvl_new: "level_ok (orders b') s k L1 (q @ [a])"
  proof -
    have "dll (orders b') None q (Some a)"
    proof (cases "q = []")
      case True
      then show ?thesis by simp
    next
      case False
      have "last q \<in> set q" using False by simp
      then obtain t where t: "fmlookup (orders b) (last q) = Some t"
        using q dll_in_dom[of "orders b" None q None "last q"] by (auto simp: level_ok_def)
      have dq: "dll (orders b) None q None" and dist: "distinct q"
        using q by (auto simp: level_ok_def)
      have "dll (fmupd (last q) (t\<lparr>nxt := Some a\<rparr>) (orders b)) None q (Some a)"
        by (rule dll_set_next[OF dq False dist t])
      moreover have "dll (orders b') None q (Some a) =
          dll (fmupd (last q) (t\<lparr>nxt := Some a\<rparr>) (orders b)) None q (Some a)"
        using a_notin t False by (intro dll_cong) (auto simp: ord')
      ultimately show ?thesis by simp
    qed
    moreover have "dll (orders b') (last_of None q) [a] None"
      using new by (simp add: ord' x1_def new_order_ok_def)
    ultimately have "dll (orders b') None (q @ [a]) None"
      by (simp add: dll_append)
    then show ?thesis
      using q a_notin ids_same
      by (auto simp: level_ok_def L1_def last_of_def)
  qed
  have lok': "levels_ok b'"
    unfolding levels_ok_def
  proof (intro allI impI)
    fix s' k' L' assume L': "SparseSet_get (side_set b' s') k' = Some L'"
    show "k' < 2 ^ 63 \<and> limit_price L' = int k' * unit b' \<and> (\<exists>q. level_ok (orders b') s' k' L' q)"
    proof (cases "(s', k') = (s, k)")
      case True
      then have "L' = L1" using L' by (simp add: get')
      then show ?thesis
        using True lvl_new k63 pL0 by (auto simp: fields L1_def)
    next
      case False
      then have old: "SparseSet_get (side_set b s') k' = Some L'"
        using L' by (auto simp: get' split: if_splits)
      then have "k' < 2 ^ 63 \<and> limit_price L' = int k' * unit b \<and>
          (\<exists>q. level_ok (orders b) s' k' L' q)"
        using lok unfolding levels_ok_def by blast
      then obtain q' where q': "k' < 2 ^ 63" "limit_price L' = int k' * unit b"
        "level_ok (orders b) s' k' L' q'"
        by blast
      have "fmlookup (orders b') a' = fmlookup (orders b) a'" if "a' \<in> set q'" for a'
      proof -
        have in': "a' \<in> level_ids (orders b) s' k'"
          using that q'(3) by (simp add: level_ok_def)
        then have "a' \<noteq> a" using fresh by (auto simp: level_ids_def a_def)
        moreover have "a' \<noteq> last q" if "q \<noteq> []"
        proof -
          have "last q \<in> set q" using that by simp
          then have "last q \<in> level_ids (orders b) s k" by (simp only: q_sub)
          then show ?thesis using in' False level_ids_disjoint[of s k s' k' "last q" "orders b"] by auto
        qed
        ultimately show ?thesis by (auto simp: ord')
      qed
      then have "level_ok (orders b') s' k' L' q'"
        using ids_other[OF False] by (intro level_ok_frame[OF q'(3)])
      then show ?thesis using q' by (auto simp: fields)
    qed
  qed
  \<comment> \<open>the counters\<close>
  have cok': "counters_ok b'"
  proof -
    have "card (fmdom' (orders b')) = Suc (card (fmdom' (orders b)))"
      using dom' fresh by (intro card_fmdom'_insert[of _ a]) (auto simp: a_def)
    then have c1: "order_count b' = of_nat (card (fmdom' (orders b')))"
      using cok by (simp add: counters_ok_def cnt)
    have sv: "side_volume (orders b') s' = side_volume (orders b) s' + (if s = s' then volume x else 0)" for s'
    proof -
      have "volume_on s' (fmlookup (orders b') a') = volume_on s' (fmlookup (orders b) a')" if "a' \<noteq> a" for a'
        using place[OF that]
        by (cases "fmlookup (orders b') a'"; cases "fmlookup (orders b) a'") auto
      from side_volume_diff[of a s' "orders b'" "orders b", OF this]
      show ?thesis using fresh by (simp add: ord' a_def x1_def s_def)
    qed
    show ?thesis
      using cok c1 by (cases s) (auto simp: counters_ok_def cnt sv)
  qed
  \<comment> \<open>the best offers\<close>
  have sz1: "limit_size L1 \<noteq> 0"
    using level_size_0[OF ook' lvl_new] by simp
  have price': "limit_price L' = int k' * unit b" if "SparseSet_get (side_set b' s') k' = Some L'" for s' k' L'
    using lok' that by (auto simp: levels_ok_def fields)
  have cmp: "int i * unit b \<le> int j * unit b \<longleftrightarrow> i \<le> j" for i j
    using un by simp
  have nonempty_old: "SparseSet_get (side_set b s') k' = Some L'" if
    "SparseSet_get (side_set b' s') k' = Some L'" "(s', k') \<noteq> (s, k)" for s' k' L'
    using that by (auto simp: get' split: if_splits)
  have bb': "best_buy_ok b'"
  proof (cases "s = Buy")
    case False
    then show ?thesis
      using bb best_buy_ok_cong[of b' b] by (simp add: hb get')
  next
    case True
    show ?thesis
    proof (cases "highest_buy b")
      case None
      then have empty: "limit_size L' = 0" if "SparseSet_get (side_set b Buy) k' = Some L'" for k' L'
        using bb that by (auto simp: best_buy_ok_def buy_sell_side_set)
      have "limit_price L' \<le> limit_price L1"
        if "SparseSet_get (side_set b' Buy) k' = Some L'" "limit_size L' \<noteq> 0" for k' L'
        using that empty[of k' L'] True by (cases "k' = k") (auto simp: get')
      moreover have "SparseSet_get (side_set b' Buy) k = Some L1"
        using True by (simp add: get')
      ultimately show ?thesis
        using None True sz1 by (auto simp: best_buy_ok_def hb buy_sell_side_set)
    next
      case (Some h)
      then obtain Lh where Lh: "SparseSet_get (side_set b Buy) h = Some Lh" "limit_size Lh \<noteq> 0"
        and top: "\<And>k' L'. SparseSet_get (side_set b Buy) k' = Some L' \<Longrightarrow> limit_size L' \<noteq> 0
                    \<Longrightarrow> limit_price L' \<le> limit_price Lh"
        using bb by (auto simp: best_buy_ok_def buy_sell_side_set)
      have pLh: "limit_price Lh = int h * unit b"
        using lok Lh(1) by (auto simp: levels_ok_def)
      have "\<exists>Lm. SparseSet_get (side_set b' Buy) (max h k) = Some Lm \<and> limit_size Lm \<noteq> 0"
        using Lh sz1 True by (cases "h \<le> k") (auto simp: get' max_def)
      then obtain Lm where Lm: "SparseSet_get (side_set b' Buy) (max h k) = Some Lm" "limit_size Lm \<noteq> 0"
        by blast
      have "limit_price L' \<le> limit_price Lm"
        if L': "SparseSet_get (side_set b' Buy) k' = Some L'" "limit_size L' \<noteq> 0" for k' L'
      proof (cases "k' = k")
        case True
        then show ?thesis
          using price'[OF L'(1)] price'[OF Lm(1)] cmp by simp
      next
        case False
        then have "limit_price L' \<le> limit_price Lh"
          using top[of k' L'] L' by (auto simp: get' split: if_splits)
        then have "k' \<le> h"
          using price'[OF L'(1)] pLh cmp by simp
        then show ?thesis
          using price'[OF L'(1)] price'[OF Lm(1)] cmp by simp
      qed
      then show ?thesis
        using Some True Lm by (auto simp: best_buy_ok_def hb buy_sell_side_set)
    qed
  qed
  have bs': "best_sell_ok b'"
  proof (cases "s = Sell")
    case False
    then show ?thesis
      using bs best_sell_ok_cong[of b' b] by (simp add: ls get')
  next
    case True
    show ?thesis
    proof (cases "lowest_sell b")
      case None
      then have empty: "limit_size L' = 0" if "SparseSet_get (side_set b Sell) k' = Some L'" for k' L'
        using bs that by (auto simp: best_sell_ok_def buy_sell_side_set)
      have "limit_price L1 \<le> limit_price L'"
        if "SparseSet_get (side_set b' Sell) k' = Some L'" "limit_size L' \<noteq> 0" for k' L'
        using that empty[of k' L'] True by (cases "k' = k") (auto simp: get')
      moreover have "SparseSet_get (side_set b' Sell) k = Some L1"
        using True by (simp add: get')
      ultimately show ?thesis
        using None True sz1 by (auto simp: best_sell_ok_def ls buy_sell_side_set)
    next
      case (Some l)
      then obtain Ll where Ll: "SparseSet_get (side_set b Sell) l = Some Ll" "limit_size Ll \<noteq> 0"
        and top: "\<And>k' L'. SparseSet_get (side_set b Sell) k' = Some L' \<Longrightarrow> limit_size L' \<noteq> 0
                    \<Longrightarrow> limit_price Ll \<le> limit_price L'"
        using bs by (auto simp: best_sell_ok_def buy_sell_side_set)
      have pLl: "limit_price Ll = int l * unit b"
        using lok Ll(1) by (auto simp: levels_ok_def)
      have "\<exists>Lm. SparseSet_get (side_set b' Sell) (min l k) = Some Lm \<and> limit_size Lm \<noteq> 0"
        using Ll sz1 True by (cases "l \<le> k") (auto simp: get' min_def)
      then obtain Lm where Lm: "SparseSet_get (side_set b' Sell) (min l k) = Some Lm" "limit_size Lm \<noteq> 0"
        by blast
      have "limit_price Lm \<le> limit_price L'"
        if L': "SparseSet_get (side_set b' Sell) k' = Some L'" "limit_size L' \<noteq> 0" for k' L'
      proof (cases "k' = k")
        case True
        then show ?thesis
          using price'[OF L'(1)] price'[OF Lm(1)] cmp by simp
      next
        case False
        then have "limit_price Ll \<le> limit_price L'"
          using top[of k' L'] L' by (auto simp: get' split: if_splits)
        then have "l \<le> k'"
          using price'[OF L'(1)] pLl cmp by simp
        then show ?thesis
          using price'[OF L'(1)] price'[OF Lm(1)] cmp by simp
      qed
      then show ?thesis
        using Some True Lm by (auto simp: best_sell_ok_def ls buy_sell_side_set)
    qed
  qed
  have "book_inv b'"
    using un ook' lok' cok' bb' bs' fields by (simp add: book_inv_def)
  then show ?thesis
    using ins fields dom' by (auto simp: a_def)
  qed
qed

section \<open>Book::detach keeps the invariants\<close>

lemma first_of_Some_hd: "q \<noteq> [] \<Longrightarrow> first_of q n = Some (hd q)"
  by (cases q) auto

lemma last_of_Some_last: "q \<noteq> [] \<Longrightarrow> last_of p q = Some (last q)"
  by (simp add: last_of_def)

lemma unlink_eff:
  assumes ook: "orders_ok b" and lvl: "level_ok (orders b) s k L (xs @ a # ys)"
    and x: "fmlookup (orders b) a = Some x"
  shows "\<exists>ords'. unlink (fmdrop a (orders b)) a x L =
            Some (ords', x\<lparr>prev := None, nxt := None\<rparr>,
                  L\<lparr>front_order := first_of (xs @ ys) None,
                    tail_order := last_of None (xs @ ys)\<rparr>) \<and>
          (\<forall>a'. fmlookup ords' a' =
             (if a' = a then None
              else if xs \<noteq> [] \<and> a' = last xs
              then map_option (\<lambda>t. t\<lparr>nxt := first_of ys None\<rparr>) (fmlookup (orders b) a')
              else if ys \<noteq> [] \<and> a' = hd ys
              then map_option (\<lambda>t. t\<lparr>prev := last_of None xs\<rparr>) (fmlookup (orders b) a')
              else fmlookup (orders b) a'))"
proof -
  have dist: "distinct (xs @ a # ys)" and d: "dll (orders b) None (xs @ a # ys) None"
    and fr: "front_order L = first_of (xs @ a # ys) None"
    and tl: "tail_order L = last_of None (xs @ a # ys)"
    using lvl by (auto simp: level_ok_def)
  have px: "prev x = last_of None xs" and nx: "nxt x = first_of ys None"
    using d x by (auto simp: dll_append)
  have sz1: "limit_size L = 1 \<longleftrightarrow> xs = [] \<and> ys = []"
    using level_size_1[OF ook lvl] by auto
  have lastxs: "\<exists>t. fmlookup (orders b) (last xs) = Some t" "last xs \<noteq> a" "ys \<noteq> [] \<Longrightarrow> last xs \<noteq> hd ys"
    if "xs \<noteq> []"
  proof -
    have "last xs \<in> set (xs @ a # ys)" using that by simp
    then show "\<exists>t. fmlookup (orders b) (last xs) = Some t"
      using dll_in_dom[OF d] by blast
    have "last xs \<in> set xs" using that by simp
    then show "last xs \<noteq> a" using dist by auto
    show "last xs \<noteq> hd ys" if "ys \<noteq> []"
    proof -
      have "hd ys \<in> set ys" using that by simp
      then show ?thesis using dist \<open>last xs \<in> set xs\<close> by auto
    qed
  qed
  have hdys: "\<exists>t. fmlookup (orders b) (hd ys) = Some t" "hd ys \<noteq> a" if "ys \<noteq> []"
  proof -
    have "hd ys \<in> set (xs @ a # ys)" using that by simp
    then show "\<exists>t. fmlookup (orders b) (hd ys) = Some t"
      using dll_in_dom[OF d] by blast
    have "hd ys \<in> set ys" using that by simp
    then show "hd ys \<noteq> a" using dist by auto
  qed
  consider (mid) "xs \<noteq> []" "ys \<noteq> []" | (only) "xs = []" "ys = []"
    | (head) "xs = []" "ys \<noteq> []" | (tail) "xs \<noteq> []" "ys = []"
    by blast
  then show ?thesis
  proof cases
    case mid
    obtain t1 t2 where t: "fmlookup (orders b) (last xs) = Some t1" "fmlookup (orders b) (hd ys) = Some t2"
      using lastxs(1) hdys(1) mid by blast
    have ne: "last xs \<noteq> a" "hd ys \<noteq> a" "last xs \<noteq> hd ys"
      using lastxs hdys mid by auto
    have fr': "front_order L \<noteq> Some a" "tail_order L \<noteq> Some a"
      using fr tl mid dist by (auto simp: first_of_Some_hd last_of_def)
    have L: "L = L\<lparr>front_order := first_of (xs @ ys) None, tail_order := last_of None (xs @ ys)\<rparr>"
      using fr tl mid by (cases xs) (auto simp: last_of_def)
    have "unlink (fmdrop a (orders b)) a x L =
        Some (fmupd (hd ys) (t2\<lparr>prev := prev x\<rparr>) (fmupd (last xs) (t1\<lparr>nxt := nxt x\<rparr>) (fmdrop a (orders b))),
              x\<lparr>prev := None, nxt := None\<rparr>, L)"
      using fr' mid t ne px nx
      by (simp add: unlink_def first_of_Some_hd last_of_Some_last)
    then show ?thesis
      using mid t ne px nx L
      by (intro exI[of _ "fmupd (hd ys) (t2\<lparr>prev := prev x\<rparr>) (fmupd (last xs) (t1\<lparr>nxt := nxt x\<rparr>) (fmdrop a (orders b)))"])
         (auto simp: first_of_Some_hd last_of_Some_last)
  next
    case only
    have "front_order L = Some a" using fr only by simp
    moreover have "limit_size L = 1" using sz1 only by simp
    moreover have "x\<lparr>prev := None, nxt := None\<rparr> = x" using px nx only by simp
    ultimately show ?thesis
      using only by (intro exI[of _ "fmdrop a (orders b)"]) (simp add: unlink_def)
  next
    case head
    obtain t2 where t: "fmlookup (orders b) (hd ys) = Some t2"
      using hdys(1) head by blast
    have ne: "hd ys \<noteq> a" using hdys head by auto
    have "front_order L = Some a" using fr head by simp
    moreover have "limit_size L \<noteq> 1" using sz1 head by simp
    moreover have "x\<lparr>nxt := None\<rparr> = x\<lparr>prev := None, nxt := None\<rparr>" using px head by simp
    moreover have "L\<lparr>front_order := nxt x\<rparr> =
        L\<lparr>front_order := first_of (xs @ ys) None, tail_order := last_of None (xs @ ys)\<rparr>"
      using nx tl head by (simp add: last_of_def)
    ultimately show ?thesis
      using head t ne nx
      by (intro exI[of _ "fmupd (hd ys) (t2\<lparr>prev := None\<rparr>) (fmdrop a (orders b))"])
         (auto simp: unlink_def first_of_Some_hd)
  next
    case tail
    obtain t1 where t: "fmlookup (orders b) (last xs) = Some t1"
      using lastxs(1) tail by blast
    have ne: "last xs \<noteq> a" using lastxs tail by auto
    have "front_order L \<noteq> Some a" using fr tail dist by (cases xs) auto
    moreover have "tail_order L = Some a" using tl tail by simp
    moreover have "limit_size L \<noteq> 1" using sz1 tail by simp
    moreover have "x\<lparr>prev := None\<rparr> = x\<lparr>prev := None, nxt := None\<rparr>" using nx tail by simp
    moreover have "L\<lparr>tail_order := prev x\<rparr> =
        L\<lparr>front_order := first_of (xs @ ys) None, tail_order := last_of None (xs @ ys)\<rparr>"
      using px fr tail by (cases xs) (auto simp: last_of_def)
    ultimately show ?thesis
      using tail t ne px
      by (intro exI[of _ "fmupd (last xs) (t1\<lparr>nxt := None\<rparr>) (fmdrop a (orders b))"])
         (auto simp: unlink_def last_of_Some_last)
  qed
qed

lemma scan_buy_spec:
  "(\<And>k L. SparseSet_get s k = Some L \<Longrightarrow> k < 2 ^ 63) \<Longrightarrow> i \<le> 2 ^ 63 \<Longrightarrow>
   (case scan_buy s i of
      None \<Rightarrow> \<forall>k < nat i. \<not> occupied s k
    | Some h \<Rightarrow> h < nat i \<and> occupied s h \<and> (\<forall>k. h < k \<and> k < nat i \<longrightarrow> \<not> occupied s k))"
proof (induction s i rule: scan_buy.induct)
  case (1 s i)
  note bound = "1.prems"(1)
  show ?case
  proof (cases "i \<ge> 0")
    case False
    then show ?thesis by (simp add: scan_buy.simps[of s i])
  next
    case True
    show ?thesis
    proof (cases "i = 0")
      case True
      have "\<not> u64 (- 1) < 2 ^ 63"
        by (simp add: u64_def)
      then have "SparseSet_get s (u64 (- 1)) = None"
        using bound[of "u64 (- 1)"] by (cases "SparseSet_get s (u64 (- 1))") blast+
      then show ?thesis
        using True by (simp add: scan_buy.simps[of s 0] scan_buy.simps[of s "- 1"])
    next
      case False
      with True have pos: "0 < i" by simp
      then have u: "u64 (i - 1) = nat i - 1"
        using "1.prems" by (simp add: u64_def nat_diff_distrib)
      have split: "k < nat i \<longleftrightarrow> k < nat (i - 1) \<or> k = nat i - 1" for k
        using pos by (auto simp: nat_diff_distrib)
      show ?thesis
      proof (cases "occupied s (nat i - 1)")
        case True
        then show ?thesis
          using pos u by (auto simp: scan_buy.simps[of s i] occupied_def word_gt_0 split: option.splits)
      next
        case nocc: False
        have IH: "case scan_buy s (i - 1) of
           None \<Rightarrow> \<forall>k < nat (i - 1). \<not> occupied s k
         | Some h \<Rightarrow> h < nat (i - 1) \<and> occupied s h \<and> (\<forall>k. h < k \<and> k < nat (i - 1) \<longrightarrow> \<not> occupied s k)"
        proof (cases "SparseSet_get s (u64 (i - 1))")
          case None
          show ?thesis
            by (rule "1.IH"(1)[OF True None bound]) (use "1.prems" in auto)
        next
          case (Some L)
          then have "\<not> 0 < limit_size L"
            using nocc u by (simp add: occupied_def word_gt_0)
          show ?thesis
            by (rule "1.IH"(2)[OF True Some \<open>\<not> 0 < limit_size L\<close> bound]) (use "1.prems" in auto)
        qed
        have eq: "scan_buy s i = scan_buy s (i - 1)"
          using pos nocc u by (auto simp: scan_buy.simps[of s i] occupied_def word_gt_0 split: option.splits)
        show ?thesis
          unfolding eq using IH nocc split
          by (cases "scan_buy s (i - 1)") auto
      qed
    qed
  qed
qed

lemma scan_sell_spec:
  "case scan_sell s M i of
     None \<Rightarrow> \<forall>k. i < k \<and> k \<le> M + 1 \<longrightarrow> \<not> occupied s k
   | Some h \<Rightarrow> i < h \<and> h \<le> M + 1 \<and> occupied s h \<and> (\<forall>k. i < k \<and> k < h \<longrightarrow> \<not> occupied s k)"
proof (induction s M i rule: scan_sell.induct)
  case (1 s M i)
  show ?case
  proof (cases "i \<le> M")
    case False
    then show ?thesis by (auto simp: scan_sell.simps[of s M i])
  next
    case True
    show ?thesis
    proof (cases "occupied s (i + 1)")
      case True
      then show ?thesis
        using \<open>i \<le> M\<close> by (auto simp: scan_sell.simps[of s M i] occupied_def word_gt_0 split: option.splits)
    next
      case nocc: False
      have IH: "case scan_sell s M (i + 1) of
         None \<Rightarrow> \<forall>k. i + 1 < k \<and> k \<le> M + 1 \<longrightarrow> \<not> occupied s k
       | Some h \<Rightarrow> i + 1 < h \<and> h \<le> M + 1 \<and> occupied s h \<and> (\<forall>k. i + 1 < k \<and> k < h \<longrightarrow> \<not> occupied s k)"
      proof (cases "SparseSet_get s (i + 1)")
        case None
        then show ?thesis using "1.IH"(1)[OF True None] by simp
      next
        case (Some L)
        then have "\<not> 0 < limit_size L"
          using nocc by (simp add: occupied_def word_gt_0)
        then show ?thesis using "1.IH"(2)[OF True Some] by simp
      qed
      have eq: "scan_sell s M i = scan_sell s M (i + 1)"
        using True nocc by (auto simp: scan_sell.simps[of s M i] occupied_def word_gt_0 split: option.splits)
      have split: "i < k \<longleftrightarrow> i + 1 < k \<or> k = i + 1" for k
        by auto
      show ?thesis
        unfolding eq using IH nocc split
        by (cases "scan_sell s M (i + 1)") auto
    qed
  qed
qed


lemma best_buy_ok_NoneD:
  "best_buy_ok b \<Longrightarrow> highest_buy b = None \<Longrightarrow> SparseSet_get (side_set b Buy) k = Some L \<Longrightarrow>
   limit_size L = 0"
  by (simp add: best_buy_ok_def buy_sell_side_set)

lemma best_sell_ok_NoneD:
  "best_sell_ok b \<Longrightarrow> lowest_sell b = None \<Longrightarrow> SparseSet_get (side_set b Sell) k = Some L \<Longrightarrow>
   limit_size L = 0"
  by (simp add: best_sell_ok_def buy_sell_side_set)

lemma best_buy_ok_SomeD:
  "best_buy_ok b \<Longrightarrow> highest_buy b = Some h \<Longrightarrow>
   \<exists>L. SparseSet_get (side_set b Buy) h = Some L \<and> limit_size L \<noteq> 0 \<and>
       (\<forall>k L'. SparseSet_get (side_set b Buy) k = Some L' \<and> limit_size L' \<noteq> 0 \<longrightarrow>
           limit_price L' \<le> limit_price L)"
  by (simp add: best_buy_ok_def buy_sell_side_set)

lemma best_sell_ok_SomeD:
  "best_sell_ok b \<Longrightarrow> lowest_sell b = Some l \<Longrightarrow>
   \<exists>L. SparseSet_get (side_set b Sell) l = Some L \<and> limit_size L \<noteq> 0 \<and>
       (\<forall>k L'. SparseSet_get (side_set b Sell) k = Some L' \<and> limit_size L' \<noteq> 0 \<longrightarrow>
           limit_price L \<le> limit_price L')"
  by (simp add: best_sell_ok_def buy_sell_side_set)

lemma level_of_order:
  assumes "orders_ok b" "levels_ok b" "fmlookup (orders b) a = Some x"
  obtains L xs ys where
    "SparseSet_get (side_set b (side x)) (nat (price x div unit b)) = Some L"
    "level_ok (orders b) (side x) (nat (price x div unit b)) L (xs @ a # ys)"
proof -
  have ok: "order_ok b a x" using assms by (simp add: orders_ok_def)
  then obtain L where L: "SparseSet_get (side_set b (side x)) (nat (price x div unit b)) = Some L"
    by (auto simp: order_ok_def)
  then obtain q where q: "level_ok (orders b) (side x) (nat (price x div unit b)) L q"
    using assms(2) unfolding levels_ok_def by blast
  have "a \<in> level_ids (orders b) (side x) (nat (price x div unit b))"
    using ok assms(3) by (auto simp: level_ids_def order_ok_def)
  then have "a \<in> set q" using q by (simp add: level_ok_def)
  then obtain xs ys where "q = xs @ a # ys" by (auto simp: in_set_conv_decomp)
  then show ?thesis using that L q by blast
qed

lemma SparseSet_size_pos: "wf_set s \<Longrightarrow> 0 < SparseSet_size s"
  by (auto simp: wf_set_def SparseSet_size_def)

lemma update_best_Buy:
  "side x = Buy \<Longrightarrow> highest_buy b = Some h \<Longrightarrow> SparseSet_get (side_set b Buy) h = Some hl \<Longrightarrow>
   update_best b x =
     Some (if limit_size hl = 0 then b\<lparr>highest_buy := scan_buy (side_set b Buy) (price x div unit b)\<rparr>
           else b)"
  by (simp add: update_best_def buy_sell_side_set)

lemma update_best_Sell:
  "side x = Sell \<Longrightarrow> lowest_sell b = Some l \<Longrightarrow> SparseSet_get (side_set b Sell) l = Some ll \<Longrightarrow>
   update_best b x =
     Some (if limit_size ll = 0
           then b\<lparr>lowest_sell := scan_sell (side_set b Sell)
                   (u64 (int (SparseSet_size (side_set b Sell)) - 1)) (u64 (price x div unit b))\<rparr>
           else b)"
  by (simp add: update_best_def buy_sell_side_set)

lemma detach_obs:
  assumes inv: "book_inv b" and x: "fmlookup (orders b) a = Some x"
  obtains b' L xs ys where
    "detach b a = Some (b', Some (x\<lparr>prev := None, nxt := None\<rparr>))"
    "SparseSet_get (side_set b (side x)) (nat (price x div unit b)) = Some L"
    "level_ok (orders b) (side x) (nat (price x div unit b)) L (xs @ a # ys)"
    "\<And>s' k'. SparseSet_get (side_set b' s') k' =
        (if s' = side x \<and> k' = nat (price x div unit b)
         then Some (L\<lparr>front_order := first_of (xs @ ys) None,
                      tail_order := last_of None (xs @ ys),
                      limit_size := limit_size L - 1,
                      limit_volume := limit_volume L - volume x\<rparr>)
         else SparseSet_get (side_set b s') k')"
    "\<And>a'. fmlookup (orders b') a' =
        (if a' = a then None
         else if xs \<noteq> [] \<and> a' = last xs
         then map_option (\<lambda>t. t\<lparr>nxt := first_of ys None\<rparr>) (fmlookup (orders b) a')
         else if ys \<noteq> [] \<and> a' = hd ys
         then map_option (\<lambda>t. t\<lparr>prev := last_of None xs\<rparr>) (fmlookup (orders b) a')
         else fmlookup (orders b) a')"
    "unit b' = unit b" "symbol b' = symbol b" "wf_set (buy_set b')" "wf_set (sell_set b')"
    "SparseSet_size (buy_set b') < 2 ^ 64" "SparseSet_size (sell_set b') < 2 ^ 64"
    "order_count b' = order_count b - 1"
    "buy_volume b' = buy_volume b - (if side x = Buy then volume x else 0)"
    "sell_volume b' = sell_volume b - (if side x = Sell then volume x else 0)"
    "highest_buy b' =
       (if side x = Buy \<and> highest_buy b = Some (nat (price x div unit b)) \<and> xs = [] \<and> ys = []
        then scan_buy (side_set b' Buy) (int (nat (price x div unit b)))
        else highest_buy b)"
    "lowest_sell b' =
       (if side x = Sell \<and> lowest_sell b = Some (nat (price x div unit b)) \<and> xs = [] \<and> ys = []
        then scan_sell (side_set b' Sell) (SparseSet_size (side_set b' Sell) - 1)
               (nat (price x div unit b))
        else lowest_sell b)"
proof -
  define s where "s = side x"
  define k where "k = nat (price x div unit b)"
  have un: "0 < unit b" and wf: "wf_set (side_set b s')" and ook: "orders_ok b" and lok: "levels_ok b"
    and bb: "best_buy_ok b" and bs: "best_sell_ok b"
    and szb: "SparseSet_size (side_set b s') < 2 ^ 64" for s'
    using inv by (cases s'; auto simp: book_inv_def side_set_def)+
  have okx: "order_ok b a x" using ook x by (simp add: orders_ok_def)
  then have lim: "limit x = Some k" and tick: "0 \<le> price x div unit b" "price x div unit b < 2 ^ 63"
    using un by (auto simp: order_ok_def k_def pos_imp_zdiv_nonneg_iff)
  have ik: "price x div unit b = int k" using tick by (simp add: k_def)
  have k63: "k < 2 ^ 63" using tick by (simp add: k_def nat_less_iff)
  from level_of_order[OF ook lok x, folded s_def k_def]
  obtain L xs ys where L: "SparseSet_get (side_set b s) k = Some L"
    and lvl: "level_ok (orders b) s k L (xs @ a # ys)"
    by blast
  from unlink_eff[OF ook lvl x]
  obtain ords' where unl: "unlink (fmdrop a (orders b)) a x L =
            Some (ords', x\<lparr>prev := None, nxt := None\<rparr>,
                  L\<lparr>front_order := first_of (xs @ ys) None,
                    tail_order := last_of None (xs @ ys)\<rparr>)"
    and ords': "\<And>a'. fmlookup ords' a' =
             (if a' = a then None
              else if xs \<noteq> [] \<and> a' = last xs
              then map_option (\<lambda>t. t\<lparr>nxt := first_of ys None\<rparr>) (fmlookup (orders b) a')
              else if ys \<noteq> [] \<and> a' = hd ys
              then map_option (\<lambda>t. t\<lparr>prev := last_of None xs\<rparr>) (fmlookup (orders b) a')
              else fmlookup (orders b) a')"
    by blast
  define L1 where "L1 = L\<lparr>front_order := first_of (xs @ ys) None,
      tail_order := last_of None (xs @ ys), limit_size := limit_size L - 1,
      limit_volume := limit_volume L - volume x\<rparr>"
  define b3 where "b3 = add_side_volume
      ((set_side_set b s (SparseSet_store (side_set b s) k L1))\<lparr>orders := ords',
          order_count := order_count b - 1\<rparr>) s (- volume x)"
  have get3: "SparseSet_get (side_set b3 s') k' =
      (if s' = s \<and> k' = k then Some L1 else SparseSet_get (side_set b s') k')" for s' k'
    using wf[of s] L by (auto simp: b3_def SparseSet_get_store)
  have size3: "SparseSet_size (side_set b3 s') = SparseSet_size (side_set b s')" for s'
    by (simp add: b3_def)
  have sz_pos: "0 < SparseSet_size (side_set b s')" for s'
    using wf[of s'] by (rule SparseSet_size_pos)
  have szL: "limit_size L = of_nat (length (xs @ a # ys))" and dist: "distinct (xs @ a # ys)"
    and ids: "set (xs @ a # ys) = level_ids (orders b) s k"
    using lvl by (auto simp: level_ok_def)
  have "0 \<notin> set (xs @ ys)"
    using level_ids_nonzero[OF ook, of s k] ids by auto
  then have sz1: "limit_size L1 = 0 \<longleftrightarrow> xs = [] \<and> ys = []"
    using of_nat_length_eq_0[of "xs @ ys"] dist szL by (auto simp: L1_def)
  have szL0: "limit_size L \<noteq> 0"
    using level_size_0[OF ook lvl] by simp
  define hb where "hb = (if s = Buy \<and> highest_buy b = Some k \<and> xs = [] \<and> ys = []
        then scan_buy (side_set b3 Buy) (int k) else highest_buy b)"
  define ls where "ls = (if s = Sell \<and> lowest_sell b = Some k \<and> xs = [] \<and> ys = []
        then scan_sell (side_set b3 Sell) (SparseSet_size (side_set b3 Sell) - 1) k
        else lowest_sell b)"
  have f3: "highest_buy b3 = highest_buy b" "lowest_sell b3 = lowest_sell b" "unit b3 = unit b"
    by (simp_all add: b3_def)
  have upd: "update_best b3 (x\<lparr>prev := None, nxt := None\<rparr>) =
      Some (b3\<lparr>highest_buy := hb, lowest_sell := ls\<rparr>)"
  proof (cases s)
    case Buy
    then have sx: "side (x\<lparr>prev := None, nxt := None\<rparr>) = Buy" by (simp add: s_def)
    have "highest_buy b \<noteq> None"
      using best_buy_ok_NoneD[OF bb _ L[unfolded Buy]] szL0 by blast
    then obtain h where h: "highest_buy b = Some h" by blast
    then obtain Lh where Lh: "SparseSet_get (side_set b Buy) h = Some Lh" "limit_size Lh \<noteq> 0"
      using best_buy_ok_SomeD[OF bb] by blast
    define hl where "hl = (if h = k then L1 else Lh)"
    have hl: "SparseSet_get (side_set b3 Buy) h = Some hl"
      using get3[of Buy h] Buy Lh by (simp add: hl_def)
    have z: "limit_size hl = 0 \<longleftrightarrow> h = k \<and> xs = [] \<and> ys = []"
      using sz1 Lh(2) by (simp add: hl_def)
    have ls': "ls = lowest_sell b3" using Buy by (simp add: ls_def f3)
    have "update_best b3 (x\<lparr>prev := None, nxt := None\<rparr>) =
        Some (if limit_size hl = 0 then b3\<lparr>highest_buy := scan_buy (side_set b3 Buy) (int k)\<rparr> else b3)"
      using update_best_Buy[OF sx _ hl] h ik by (simp add: f3)
    also have "(if limit_size hl = 0 then b3\<lparr>highest_buy := scan_buy (side_set b3 Buy) (int k)\<rparr> else b3)
        = b3\<lparr>highest_buy := hb, lowest_sell := ls\<rparr>"
      unfolding ls' z using h Buy f3(1) by (auto simp: hb_def)
    finally show ?thesis .
  next
    case Sell
    then have sx: "side (x\<lparr>prev := None, nxt := None\<rparr>) = Sell" by (simp add: s_def)
    have "lowest_sell b \<noteq> None"
      using best_sell_ok_NoneD[OF bs _ L[unfolded Sell]] szL0 by blast
    then obtain l where l: "lowest_sell b = Some l" by blast
    then obtain Ll where Ll: "SparseSet_get (side_set b Sell) l = Some Ll" "limit_size Ll \<noteq> 0"
      using best_sell_ok_SomeD[OF bs] by blast
    define ll where "ll = (if l = k then L1 else Ll)"
    have ll: "SparseSet_get (side_set b3 Sell) l = Some ll"
      using get3[of Sell l] Sell Ll by (simp add: ll_def)
    have z: "limit_size ll = 0 \<longleftrightarrow> l = k \<and> xs = [] \<and> ys = []"
      using sz1 Ll(2) by (simp add: ll_def)
    have hb': "hb = highest_buy b3" using Sell by (simp add: hb_def f3)
    have m: "u64 (int (SparseSet_size (side_set b3 Sell)) - 1) = SparseSet_size (side_set b3 Sell) - 1"
      using szb[of Sell] sz_pos[of Sell] unfolding size3 by (simp add: u64_def nat_diff_distrib)
    have uk: "u64 (int k) = k"
      using k63 by (simp add: u64_def)
    have "update_best b3 (x\<lparr>prev := None, nxt := None\<rparr>) =
        Some (if limit_size ll = 0
              then b3\<lparr>lowest_sell := scan_sell (side_set b3 Sell) (SparseSet_size (side_set b3 Sell) - 1) k\<rparr>
              else b3)"
      using update_best_Sell[OF sx _ ll] l ik m uk by (simp add: f3)
    also have "(if limit_size ll = 0
              then b3\<lparr>lowest_sell := scan_sell (side_set b3 Sell) (SparseSet_size (side_set b3 Sell) - 1) k\<rparr>
              else b3) = b3\<lparr>highest_buy := hb, lowest_sell := ls\<rparr>"
      unfolding hb' z using l Sell f3(2) by (auto simp: ls_def)
    finally show ?thesis .
  qed
  have det: "detach b a = Some (b3\<lparr>highest_buy := hb, lowest_sell := ls\<rparr>,
      Some (x\<lparr>prev := None, nxt := None\<rparr>))"
    using x lim L[unfolded s_def] unl upd
    unfolding detach_def b3_def L1_def s_def
    by simp
  show ?thesis
  proof (rule that[of "b3\<lparr>highest_buy := hb, lowest_sell := ls\<rparr>" L xs ys])
    show "detach b a = Some (b3\<lparr>highest_buy := hb, lowest_sell := ls\<rparr>,
        Some (x\<lparr>prev := None, nxt := None\<rparr>))"
      by (rule det)
    show "SparseSet_get (side_set b (side x)) (nat (price x div unit b)) = Some L"
      using L by (simp add: s_def k_def)
    show "level_ok (orders b) (side x) (nat (price x div unit b)) L (xs @ a # ys)"
      using lvl by (simp add: s_def k_def)
    show "SparseSet_get (side_set (b3\<lparr>highest_buy := hb, lowest_sell := ls\<rparr>) s') k' =
        (if s' = side x \<and> k' = nat (price x div unit b)
         then Some (L\<lparr>front_order := first_of (xs @ ys) None,
                      tail_order := last_of None (xs @ ys),
                      limit_size := limit_size L - 1,
                      limit_volume := limit_volume L - volume x\<rparr>)
         else SparseSet_get (side_set b s') k')" for s' k'
      using get3[of s' k'] by (simp add: L1_def s_def k_def)
    show "fmlookup (orders (b3\<lparr>highest_buy := hb, lowest_sell := ls\<rparr>)) a' =
        (if a' = a then None
         else if xs \<noteq> [] \<and> a' = last xs
         then map_option (\<lambda>t. t\<lparr>nxt := first_of ys None\<rparr>) (fmlookup (orders b) a')
         else if ys \<noteq> [] \<and> a' = hd ys
         then map_option (\<lambda>t. t\<lparr>prev := last_of None xs\<rparr>) (fmlookup (orders b) a')
         else fmlookup (orders b) a')" for a'
      using ords'[of a'] by (simp add: b3_def)
    show "wf_set (buy_set (b3\<lparr>highest_buy := hb, lowest_sell := ls\<rparr>))"
      using wf[of Buy] by (cases s) (auto simp: b3_def set_side_set_def add_side_volume_def side_set_def)
    show "wf_set (sell_set (b3\<lparr>highest_buy := hb, lowest_sell := ls\<rparr>))"
      using wf[of Sell] by (cases s) (auto simp: b3_def set_side_set_def add_side_volume_def side_set_def)
    show "SparseSet_size (buy_set (b3\<lparr>highest_buy := hb, lowest_sell := ls\<rparr>)) < 2 ^ 64"
      using size3[of Buy] szb[of Buy] by (simp add: buy_sell_side_set)
    show "SparseSet_size (sell_set (b3\<lparr>highest_buy := hb, lowest_sell := ls\<rparr>)) < 2 ^ 64"
      using size3[of Sell] szb[of Sell] by (simp add: buy_sell_side_set)
    show "highest_buy (b3\<lparr>highest_buy := hb, lowest_sell := ls\<rparr>) =
       (if side x = Buy \<and> highest_buy b = Some (nat (price x div unit b)) \<and> xs = [] \<and> ys = []
        then scan_buy (side_set (b3\<lparr>highest_buy := hb, lowest_sell := ls\<rparr>) Buy) (int (nat (price x div unit b)))
        else highest_buy b)"
      by (simp add: hb_def s_def k_def)
    show "lowest_sell (b3\<lparr>highest_buy := hb, lowest_sell := ls\<rparr>) =
       (if side x = Sell \<and> lowest_sell b = Some (nat (price x div unit b)) \<and> xs = [] \<and> ys = []
        then scan_sell (side_set (b3\<lparr>highest_buy := hb, lowest_sell := ls\<rparr>) Sell)
               (SparseSet_size (side_set (b3\<lparr>highest_buy := hb, lowest_sell := ls\<rparr>) Sell) - 1)
               (nat (price x div unit b))
        else lowest_sell b)"
      by (simp add: ls_def s_def k_def)
  qed (simp_all add: b3_def s_def)
qed

section \<open>Unfolding the matching loop\<close>

lemma match_loop_stop: "\<not> 0 < sint vol \<Longrightarrow> match_loop b sd pr vol fills = Some (b, vol, fills)"
  by (subst match_loop.simps) simp

lemma match_loop_step:
  "0 < sint vol \<Longrightarrow> match_loop target_book sd pr vol fills =
     do {
        best \<leftarrow> get_best_offer_id target_book sd;
        let best_match_copy = get_order_by_id target_book best;
        if order_id best_match_copy = 0 then Some (target_book, vol, fills)
        else if (sd = Buy \<and> price best_match_copy \<le> pr) \<or>
                (sd = Sell \<and> price best_match_copy \<ge> pr)
        then
          if volume best_match_copy > vol then do {
            (b, r) \<leftarrow> amend target_book (order_id best_match_copy) (price best_match_copy)
                        (volume best_match_copy - vol);
            match_loop b sd pr 0
              (fills @ [\<lparr>other_order_id = order_id best_match_copy,
                         trade_price = price best_match_copy, trade_volume = vol\<rparr>])
          }
          else do {
            (b, r) \<leftarrow> remove target_book (order_id best_match_copy);
            match_loop b sd pr (vol - volume best_match_copy)
              (fills @ [\<lparr>other_order_id = order_id best_match_copy,
                         trade_price = price best_match_copy,
                         trade_volume = volume best_match_copy\<rparr>])
          }
        else Some (target_book, vol, fills)
      }"
  by (subst match_loop.simps) simp

lemmas book_defs = Book_new_def Book_insert_def Order_new_def exist_def misaligned_def side_set_def
  set_side_set_def add_side_volume_def append_order_def adjust_best_def Limit_new_def u64_def
  get_best_offer_id_def get_order_by_id_def remove_def detach_def unlink_def update_best_def
  amend_def

lemmas set_simps = SparseSet_get_insert SparseSet_get_store SparseSet_size_insert

lemmas eval_defs = add_order_def amend_order_def pull_order_def MatchingEngine_new_def book_defs
  set_simps match_loop_step match_loop_stop scan_buy.simps scan_sell.simps Let_def

section \<open>Scenarios run on the model\<close>

text \<open>
  C1. The claim: an order id is in \<open>order_book_map\<close> exactly when the order rests in a
  book, and a counter order that the matching loop of \<^verbatim>\<open>add_order\<close> consumes entirely
  leaves both the book and \<open>order_book_map\<close>. The loop calls
  \<^verbatim>\<open>target_book->remove(best_id)\<close> and never erases \<open>best_id\<close> from \<open>order_book_map\<close>
  (\<^verbatim>\<open>pull_order\<close> does both). After a buy of 10 at 100 with id 1 and a sell of 10 at 100
  with id 2, the sell is filled against order 1, order 1 has left the book, and
  \<open>order_book_map\<close> still maps id 1 to the book.
\<close>

theorem C1_filled_counter_order_stays_in_order_book_map:
  "(case do { (r1, e1, f1) \<leftarrow> add_order MatchingEngine_new 1 ''X'' Buy 100 10 [];
              add_order e1 2 ''X'' Sell 100 10 f1 } of
      None \<Rightarrow> False
    | Some (r, e, f) \<Rightarrow>
        r \<and> f = [\<lparr>other_order_id = 1, trade_price = 100, trade_volume = 10\<rparr>] \<and>
        fmlookup (order_book_map e) 1 = Some ''X'' \<and>
        (case fmlookup (books e) ''X'' of
           None \<Rightarrow> False
         | Some b \<Rightarrow> fmlookup (orders b) 1 = None))"
  by (simp add: eval_defs)

text \<open>
  C2. The claim: a slot of the directory that was never written reads as the null
  sentinel, because a fresh page is cleared entirely. \<^verbatim>\<open>Page\<close> clears \<open>size\<close> bytes of
  an array of \<open>size\<close> pointers, which is its first eighth: in a directory built by
  \<^verbatim>\<open>SparseSet<Limit *>(4096)\<close> on storage that held \<open>x\<close> everywhere, slot 512 was never
  written and reads \<open>x\<close>.
\<close>

theorem C2_unwritten_slot_keeps_old_storage:
  "SparseSet_get (SparseSet_new 8 (\<lambda>i. Some x) 4096 4096) 512 = Some x"
  by (simp add: SparseSet_get_def SparseSet_new_def Page_def log2_floor.simps Let_def)

text \<open>
  C3. The claim: \<^verbatim>\<open>amend_order\<close> returns false and changes nothing when the new volume
  is not positive. The second validation line of \<^verbatim>\<open>amend_order\<close> repeats
  \<^verbatim>\<open>new_price <= 0\<close>, so the volume is never checked: amending the resting buy of 10 at
  100 to volume 0 at the same price returns true and leaves the order resting with
  volume 0.
\<close>

theorem C3_amend_order_accepts_volume_zero:
  "(case do { (r1, e1, f1) \<leftarrow> add_order MatchingEngine_new 1 ''X'' Buy 100 10 [];
              amend_order e1 1 100 0 f1 } of
      None \<Rightarrow> False
    | Some (r, e, f) \<Rightarrow>
        r \<and>
        (case fmlookup (books e) ''X'' of
           None \<Rightarrow> False
         | Some b \<Rightarrow> map_option volume (fmlookup (orders b) 1) = Some 0))"
  by (simp add: eval_defs)

text \<open>
  C5. Scenario 3 of the specification, from an empty engine: sells \<open>(1, 100, 3)\<close>,
  \<open>(2, 100, 4)\<close> and \<open>(3, 101, 5)\<close> on one symbol, then the buy \<open>(4, 101, 10)\<close>. Every
  call returns, the last one returns true with the fills \<open>{1,100,3}\<close>, \<open>{2,100,4}\<close>,
  \<open>{3,101,3}\<close> in that order, order 3 rests as a sell at 101 with volume 2, and order 4
  is not in the book.
\<close>

theorem C5_multi_level_sweep:
  "(case do { (r1, e1, f1) \<leftarrow> add_order MatchingEngine_new 1 ''X'' Sell 100 3 [];
              (r2, e2, f2) \<leftarrow> add_order e1 2 ''X'' Sell 100 4 f1;
              (r3, e3, f3) \<leftarrow> add_order e2 3 ''X'' Sell 101 5 f2;
              add_order e3 4 ''X'' Buy 101 10 f3 } of
      None \<Rightarrow> False
    | Some (r, e, f) \<Rightarrow>
        r \<and>
        f = [\<lparr>other_order_id = 1, trade_price = 100, trade_volume = 3\<rparr>,
             \<lparr>other_order_id = 2, trade_price = 100, trade_volume = 4\<rparr>,
             \<lparr>other_order_id = 3, trade_price = 101, trade_volume = 3\<rparr>] \<and>
        (case fmlookup (books e) ''X'' of
           None \<Rightarrow> False
         | Some b \<Rightarrow>
             map_option (\<lambda>x. (side x, price x, volume x)) (fmlookup (orders b) 3)
               = Some (Sell, 101, 2) \<and>
             fmlookup (orders b) 4 = None))"
  by (simp add: eval_defs)

end
